theory Spec2Isabelle
  imports Main
begin

section \<open>Python values used by badfish.py\<close>

text \<open>
  The exceptions the modelled functions can raise. \<open>BadfishException\<close> is the program's
  own exception class; the others are the built-in exceptions that escape where the
  source does not catch them.
\<close>

datatype error =
    BadfishException
  | ValueError
  | KeyError
  | IndexError
  | TypeError
  | AttributeError

text \<open>
  What \<open>json.loads\<close> produces. Numbers are integers here (no controller field read by
  the modelled functions is a float). The members of an object are an association
  list; \<open>map_of\<close> reads it.
\<close>

datatype json =
    JNull
  | JBool bool
  | JInt int
  | JStr string
  | JArr "json list"
  | JObj "(string \<times> json) list"

text \<open>Python truthiness (\<open>if x:\<close>, \<open>not x\<close>).\<close>

fun truthy :: "json \<Rightarrow> bool" where
  "truthy JNull = False"
| "truthy (JBool b) = b"
| "truthy (JInt n) = (n \<noteq> 0)"
| "truthy (JStr s) = (s \<noteq> [])"
| "truthy (JArr xs) = (xs \<noteq> [])"
| "truthy (JObj kvs) = (kvs \<noteq> [])"

text \<open>\<open>str.lower\<close> on ASCII letters; every other character is kept. An upper-case
  letter has code 65 to 90 and its lower-case letter is 32 higher, which is bit 5 set.\<close>

fun lower_char :: "char \<Rightarrow> char" where
  "lower_char (Char b0 b1 b2 b3 b4 b5 b6 b7) =
     (let n = (of_char (Char b0 b1 b2 b3 b4 b5 b6 b7) :: nat)
      in if 65 \<le> n \<and> n \<le> 90 then Char b0 b1 b2 b3 b4 True b6 b7
         else Char b0 b1 b2 b3 b4 b5 b6 b7)"

definition lower :: "string \<Rightarrow> string" where
  "lower s = map lower_char s"

text \<open>\<open>pat in s\<close> on two strings: \<open>pat\<close> occurs in \<open>s\<close> as a contiguous substring.\<close>

fun str_contains :: "string \<Rightarrow> string \<Rightarrow> bool" where
  "str_contains pat [] = (pat = [])"
| "str_contains pat (c # cs) = (take (length pat) (c # cs) = pat \<or> str_contains pat cs)"

text \<open>\<open>x in data\<close> for a string \<open>x\<close>: key membership on a dict, element membership on
  a list, substring on a string, \<open>TypeError\<close> on a value that is not iterable.\<close>

fun py_in :: "string \<Rightarrow> json \<Rightarrow> error + bool" where
  "py_in x (JObj kvs) = Inr (x \<in> set (map fst kvs))"
| "py_in x (JArr xs) = Inr (JStr x \<in> set xs)"
| "py_in x (JStr s) = Inr (str_contains x s)"
| "py_in x _ = Inl TypeError"

text \<open>\<open>for rt in data\<close>: the elements of a list, the keys of a dict, the characters of
  a string.\<close>

fun py_iter :: "json \<Rightarrow> error + json list" where
  "py_iter (JArr xs) = Inr xs"
| "py_iter (JObj kvs) = Inr (map (\<lambda>kv. JStr (fst kv)) kvs)"
| "py_iter (JStr s) = Inr (map (\<lambda>c. JStr [c]) s)"
| "py_iter _ = Inl TypeError"

text \<open>\<open>data[key]\<close> with a string key: \<open>KeyError\<close> when a dict lacks the key,
  \<open>TypeError\<close> on a list or string (their indices are integers) and on a value that
  has no subscript.\<close>

fun py_getitem :: "json \<Rightarrow> string \<Rightarrow> error + json" where
  "py_getitem (JObj kvs) k = (case map_of kvs k of None \<Rightarrow> Inl KeyError | Some v \<Rightarrow> Inr v)"
| "py_getitem _ k = Inl TypeError"

text \<open>\<open>data[0]\<close>: the first element of a list or the first character of a string
  (\<open>IndexError\<close> when empty); a dict decoded from JSON has string keys only, so
  \<open>KeyError\<close>; otherwise \<open>TypeError\<close>.\<close>

fun py_getitem0 :: "json \<Rightarrow> error + json" where
  "py_getitem0 (JArr xs) = (case xs of [] \<Rightarrow> Inl IndexError | x # _ \<Rightarrow> Inr x)"
| "py_getitem0 (JStr s) = (case s of [] \<Rightarrow> Inl IndexError | c # _ \<Rightarrow> Inr (JStr [c]))"
| "py_getitem0 (JObj kvs) = Inl KeyError"
| "py_getitem0 _ = Inl TypeError"

text \<open>\<open>data.get(key)\<close>: \<open>None\<close> when a dict lacks the key; only a dict has the
  method.\<close>

fun py_get :: "json \<Rightarrow> string \<Rightarrow> error + json" where
  "py_get (JObj kvs) k = Inr (case map_of kvs k of None \<Rightarrow> JNull | Some v \<Rightarrow> v)"
| "py_get _ k = Inl AttributeError"

text \<open>\<open>x.lower()\<close>: only a string has the method.\<close>

fun py_lower :: "json \<Rightarrow> error + string" where
  "py_lower (JStr s) = Inr (lower s)"
| "py_lower _ = Inl AttributeError"

section \<open>Request layer\<close>

text \<open>
  A response as its callers read it: the status code and the body decoded by
  \<open>json.loads(raw.strip())\<close>, \<open>None\<close> when the body is not JSON and the decoder raises
  \<open>ValueError\<close>. A request either gets a response or fails in the transport (timeout,
  connection error).
\<close>

record response =
  status :: int
  body :: "json option"

datatype reply = NoAnswer | Answer response

datatype request = Get string | Post string json

text \<open>
  The controller as one host session sees it: the replies that the successive calls of
  \<open>get_request\<close> and of \<open>post_request\<close> hand to their callers, and the log of the
  calls made so far, oldest first. When the replies run out the controller no longer
  answers.

  \<open>get_request\<close> carries the decorator \<open>alru_cache(maxsize=64)\<close> of the package
  \<open>async_lru\<close>, which is not part of this repository: a call may be answered from the
  memo of an earlier call instead of by the controller. The replies listed here are the
  values the calls return, whichever way they were produced, so a property proved for
  every list of replies holds whatever the memo does. \<open>alru_cache\<close> below computes
  these values from the controller's own replies. The fixed waits (\<open>asyncio.sleep\<close>),
  the progress bar and the log messages are not modelled.
\<close>

record world =
  gets :: "reply list"
  posts :: "reply list"
  sent :: "request list"

text \<open>A coroutine of the session: it reads and extends the world and either returns a
  value or raises.\<close>

type_synonym 'a io = "world \<Rightarrow> (error + 'a) \<times> world"

definition return :: "'a \<Rightarrow> 'a io" where
  "return x = (\<lambda>w. (Inr x, w))"

definition raise :: "error \<Rightarrow> 'a io" where
  "raise e = (\<lambda>w. (Inl e, w))"

definition bind :: "'a io \<Rightarrow> ('a \<Rightarrow> 'b io) \<Rightarrow> 'b io" where
  "bind m f = (\<lambda>w. case m w of (Inl e, w') \<Rightarrow> (Inl e, w') | (Inr x, w') \<Rightarrow> f x w')"

definition lift :: "error + 'a \<Rightarrow> 'a io" where
  "lift r = (case r of Inl e \<Rightarrow> raise e | Inr x \<Rightarrow> return x)"

record session =
  host :: string
  host_uri :: string
  system_resource :: string
  manager_resource :: string
  retries :: int

text \<open>\<open>get_request\<close>: a transport failure is the absent result \<open>None\<close> when
  \<open>_continue\<close> is set and \<open>BadfishException\<close> otherwise.\<close>

definition get_request :: "string \<Rightarrow> bool \<Rightarrow> response option io" where
  "get_request uri continue = (\<lambda>w.
     let w' = w\<lparr>gets := tl (gets w), sent := sent w @ [Get uri]\<rparr> in
     case gets w of
       [] \<Rightarrow> if continue then (Inr None, w') else (Inl BadfishException, w')
     | NoAnswer # rs \<Rightarrow> if continue then (Inr None, w') else (Inl BadfishException, w')
     | Answer r # rs \<Rightarrow> (Inr (Some r), w'))"

text \<open>
  The decorator of \<open>get_request\<close> (line 106), for the calls of one session while no
  other session uses the memo. The key of a call is its arguments \<open>(uri, _continue)\<close>.
  A call whose key is in the memo returns the value kept there and makes the entry the
  most recent one; any other call goes to the controller, and the value it returns is
  kept as the most recent entry, dropping the least recent one beyond \<open>maxsize\<close>. A
  call that raises (no answer without \<open>_continue\<close>) leaves no entry.
  \<open>alru_cache maxsize memo calls fresh\<close> is the list of values the calls with keys
  \<open>calls\<close> return when \<open>fresh\<close> are the controller's replies to the requests that reach
  it.
\<close>

fun alru_cache ::
  "nat \<Rightarrow> ((string \<times> bool) \<times> reply) list \<Rightarrow> (string \<times> bool) list \<Rightarrow> reply list \<Rightarrow> reply list"
where
  "alru_cache maxsize memo [] fresh = []"
| "alru_cache maxsize memo (k # ks) fresh =
     (case map_of memo k of
        Some r \<Rightarrow> r # alru_cache maxsize ((k, r) # filter (\<lambda>e. fst e \<noteq> k) memo) ks fresh
      | None \<Rightarrow>
          (let r = (case fresh of [] \<Rightarrow> NoAnswer | r # _ \<Rightarrow> r);
               memo' = (if r = NoAnswer \<and> \<not> snd k then memo else take maxsize ((k, r) # memo))
           in r # alru_cache maxsize memo' ks (tl fresh)))"

definition post_request :: "string \<Rightarrow> json \<Rightarrow> response io" where
  "post_request uri payload = (\<lambda>w.
     let w' = w\<lparr>posts := tl (posts w), sent := sent w @ [Post uri payload]\<rparr> in
     case posts w of
       [] \<Rightarrow> (Inl BadfishException, w')
     | NoAnswer # rs \<Rightarrow> (Inl BadfishException, w')
     | Answer r # rs \<Rightarrow> (Inr r, w'))"

text \<open>
  \<open>error_handler\<close> never returns: the value is the exception it raises. A body that is
  not JSON gives \<open>BadfishException\<close>; a body with an \<open>error\<close> member is read down to
  \<open>data["error"]["@Message.ExtendedInfo"][0]["Message"]\<close> for the log, and a subscript
  that fails there escapes as the built-in exception; otherwise \<open>BadfishException\<close>.
\<close>

definition error_handler :: "response \<Rightarrow> error" where
  "error_handler r =
     (case body r of
        None \<Rightarrow> BadfishException
      | Some data \<Rightarrow>
          (case py_in ''error'' data of
             Inl e \<Rightarrow> e
           | Inr False \<Rightarrow> BadfishException
           | Inr True \<Rightarrow>
               (case py_getitem data ''error'' of
                  Inl e \<Rightarrow> e
                | Inr err \<Rightarrow>
                    (case py_getitem err ''@Message.ExtendedInfo'' of
                       Inl e \<Rightarrow> e
                     | Inr info \<Rightarrow>
                         (case py_getitem0 info of
                            Inl e \<Rightarrow> e
                          | Inr first \<Rightarrow>
                              (case py_getitem first ''Message'' of
                                 Inl e \<Rightarrow> e
                               | Inr _ \<Rightarrow> BadfishException))))))"

section \<open>Power state controller: choice of the reset type\<close>

text \<open>
  \<open>reboot_server\<close>, lines 838 to 842: the loop over the advertised reset types has no
  \<open>break\<close>, so every later match overwrites \<open>reset_type\<close>. \<open>rt.lower()\<close> raises
  \<open>AttributeError\<close> on an element that is not a string.
\<close>

fun scan_reset_types :: "string \<Rightarrow> json list \<Rightarrow> error + string" where
  "scan_reset_types reset_type [] = Inr reset_type"
| "scan_reset_types reset_type (JStr rt # rts) =
     scan_reset_types (if str_contains ''restart'' (lower rt) then rt else reset_type) rts"
| "scan_reset_types reset_type (_ # rts) = Inl AttributeError"

definition select_reset_type :: "string \<Rightarrow> json \<Rightarrow> error + string" where
  "select_reset_type reset_type reset_types =
     (case py_in reset_type reset_types of
        Inl e \<Rightarrow> Inl e
      | Inr True \<Rightarrow> Inr reset_type
      | Inr False \<Rightarrow>
          (case py_iter reset_types of
             Inl e \<Rightarrow> Inl e
           | Inr rts \<Rightarrow> scan_reset_types reset_type rts))"


section \<open>Power state controller\<close>

text \<open>\<open>get_power_state\<close>: an absent result and a status other than 200 are \<open>Down\<close>;
  a 200 body without a truthy \<open>PowerState\<close> raises.\<close>

definition get_power_state :: "session \<Rightarrow> json io" where
  "get_power_state s =
     bind (get_request (host_uri s @ system_resource s) True) (\<lambda>r.
       case r of
         None \<Rightarrow> return (JStr ''Down'')
       | Some resp \<Rightarrow>
           if status resp = 200 then
             (case body resp of
                None \<Rightarrow> raise ValueError
              | Some data \<Rightarrow>
                  bind (lift (py_get data ''PowerState'')) (\<lambda>v.
                    if \<not> truthy v then raise BadfishException
                    else lift (py_getitem data ''PowerState'')))
           else return (JStr ''Down''))"

text \<open>\<open>send_reset\<close>: 200 and 204 are accepted, 409 is only a warning, any other status
  goes to \<open>error_handler\<close>.\<close>

definition send_reset :: "session \<Rightarrow> string \<Rightarrow> unit io" where
  "send_reset s reset_type =
     bind (post_request (host_uri s @ system_resource s @ ''/Actions/ComputerSystem.Reset'')
             (JObj [(''ResetType'', JStr reset_type)])) (\<lambda>resp.
       if status resp \<in> {200, 204} then return ()
       else if status resp = 409 then return ()
       else raise (error_handler resp))"

text \<open>\<open>set_power_state\<close>: the result is \<open>None\<close> on the early return (target off and no
  answer) and \<open>data["PowerState"]\<close> otherwise. With no answer and target on, the source
  reads \<open>_response.status\<close> of \<open>None\<close>, an \<open>AttributeError\<close>.\<close>

definition set_power_state :: "session \<Rightarrow> string \<Rightarrow> json option io" where
  "set_power_state s state =
     (if lower state \<notin> {''on'', ''off''} then raise BadfishException
      else
        bind (get_request (host_uri s @ system_resource s) True) (\<lambda>r.
          case r of
            None \<Rightarrow> if lower state = ''off'' then return None else raise AttributeError
          | Some resp \<Rightarrow>
              if status resp = 200 then
                (case body resp of
                   None \<Rightarrow> raise ValueError
                 | Some data \<Rightarrow>
                     bind (lift (py_get data ''PowerState'')) (\<lambda>v.
                       if \<not> truthy v then raise BadfishException
                       else
                         bind (if lower state = ''off'' then send_reset s ''ForceOff''
                               else if lower state = ''on'' then send_reset s ''On''
                               else return ()) (\<lambda>_.
                           bind (lift (py_getitem data ''PowerState'')) (\<lambda>p.
                             return (Some p)))))
              else raise BadfishException))"

text \<open>\<open>polling_host_state\<close>: at most \<open>retries\<close> observations, stopping at the first
  one in the desired relation to \<open>state\<close>; the result is whether that happened.\<close>

fun polling_loop :: "session \<Rightarrow> string \<Rightarrow> bool \<Rightarrow> nat \<Rightarrow> bool io" where
  "polling_loop s state equals 0 = return False"
| "polling_loop s state equals (Suc n) =
     bind (get_power_state s) (\<lambda>current_state.
       bind (lift (py_lower current_state)) (\<lambda>current.
         let desired_state =
               (if equals then current = lower state else current \<noteq> lower state)
         in if desired_state then return True else polling_loop s state equals n))"

definition polling_host_state :: "session \<Rightarrow> string \<Rightarrow> bool \<Rightarrow> bool io" where
  "polling_host_state s state equals = polling_loop s state equals (nat (retries s))"

text \<open>\<open>get_reset_types\<close> for the system resource: the value of
  \<open>ResetType@Redfish.AllowableValues\<close>, the empty list when the document has no
  \<open>Actions\<close> or no reset action, \<open>None\<close> when the action lacks the member.\<close>

definition get_reset_types :: "session \<Rightarrow> json io" where
  "get_reset_types s =
     bind (get_request (host_uri s @ system_resource s) False) (\<lambda>r.
       case r of
         None \<Rightarrow> return (JArr [])
       | Some resp \<Rightarrow>
           (case body resp of
              None \<Rightarrow> raise ValueError
            | Some data \<Rightarrow>
                bind (lift (py_in ''Actions'' data)) (\<lambda>has_actions.
                  if \<not> has_actions then return (JArr [])
                  else
                    bind (lift (py_getitem data ''Actions'')) (\<lambda>actions.
                      bind (lift (py_get actions ''#ComputerSystem.Reset'')) (\<lambda>reset.
                        if truthy reset
                        then lift (py_get reset ''ResetType@Redfish.AllowableValues'')
                        else return (JArr []))))))"

text \<open>\<open>reboot_server\<close>.\<close>

definition reboot_server :: "session \<Rightarrow> bool \<Rightarrow> bool io" where
  "reboot_server s graceful =
     bind (get_reset_types s) (\<lambda>reset_types.
       bind (lift (select_reset_type ''GracefulRestart'' reset_types)) (\<lambda>reset_type.
         bind (get_power_state s) (\<lambda>power_state.
           bind (lift (py_lower power_state)) (\<lambda>ps.
             if ps = ''on'' then
               bind (if graceful then
                       bind (send_reset s reset_type) (\<lambda>_.
                         bind (polling_host_state s ''Off'' True) (\<lambda>host_down.
                           if \<not> host_down then send_reset s ''ForceOff'' else return ()))
                     else send_reset s ''ForceOff'') (\<lambda>_.
                 bind (polling_host_state s ''Down'' False) (\<lambda>host_not_down.
                   bind (if host_not_down then send_reset s ''On'' else return ()) (\<lambda>_.
                     return True)))
             else if ps = ''off'' then bind (send_reset s ''On'') (\<lambda>_. return True)
             else return True))))"

section \<open>Job lifecycle manager: polling a job\<close>

text \<open>
  \<open>get_job_status\<close>: one tolerant GET per iteration of \<open>range(self.retries)\<close>. An
  absent result goes to the next iteration; a status other than 200 goes to
  \<open>error_handler\<close>; a 200 body is decoded and its \<open>Message\<close> compared with the one
  text that ends the loop. After the last iteration the function raises.
\<close>

fun job_status_loop :: "session \<Rightarrow> string \<Rightarrow> nat \<Rightarrow> unit io" where
  "job_status_loop s job_id 0 = raise BadfishException"
| "job_status_loop s job_id (Suc n) =
     bind (get_request (host_uri s @ manager_resource s @ ''/Jobs/'' @ job_id) True) (\<lambda>r.
       case r of
         None \<Rightarrow> job_status_loop s job_id n
       | Some resp \<Rightarrow>
           if status resp = 200 then
             (case body resp of
                None \<Rightarrow> raise ValueError
              | Some data \<Rightarrow>
                  bind (lift (py_getitem data ''Message'')) (\<lambda>message.
                    if message = JStr ''Task successfully scheduled.'' then return ()
                    else job_status_loop s job_id n))
           else raise (error_handler resp))"

definition get_job_status :: "session \<Rightarrow> string \<Rightarrow> unit io" where
  "get_job_status s job_id = job_status_loop s job_id (nat (retries s))"

section \<open>Boot order engine: boot mode\<close>

text \<open>
  \<open>get_bios_boot_mode\<close>: a body that is not JSON raises \<open>BadfishException\<close>; of the
  failures of \<open>data["Attributes"]["BootMode"]\<close> only \<open>KeyError\<close> is caught and
  answered with \<open>Bios\<close>. The status code is not read.
\<close>

definition get_bios_boot_mode :: "session \<Rightarrow> json io" where
  "get_bios_boot_mode s =
     bind (get_request (host_uri s @ system_resource s @ ''/Bios'') False) (\<lambda>r.
       case r of
         None \<Rightarrow> raise AttributeError
       | Some resp \<Rightarrow>
           (case body resp of
              None \<Rightarrow> raise BadfishException
            | Some data \<Rightarrow>
                (case py_getitem data ''Attributes'' of
                   Inl e \<Rightarrow> if e = KeyError then return (JStr ''Bios'') else raise e
                 | Inr attributes \<Rightarrow>
                     (case py_getitem attributes ''BootMode'' of
                        Inl e \<Rightarrow> if e = KeyError then return (JStr ''Bios'') else raise e
                      | Inr bios_boot_mode \<Rightarrow> return bios_boot_mode))))"

definition get_boot_seq :: "session \<Rightarrow> string io" where
  "get_boot_seq s =
     bind (get_bios_boot_mode s) (\<lambda>bios_boot_mode.
       if bios_boot_mode = JStr ''Uefi'' then return ''UefiBootSeq'' else return ''BootSeq'')"

section \<open>Boot order engine: the interfaces template of a host type\<close>

text \<open>\<open>s.split(sep)\<close> with a one-character separator: never an empty list, and an
  empty piece between two adjacent separators.\<close>

fun split :: "char \<Rightarrow> string \<Rightarrow> string list" where
  "split sep [] = [[]]"
| "split sep (c # cs) =
     (if c = sep then [] # split sep cs
      else (case split sep cs of [] \<Rightarrow> [[c]] | p # ps \<Rightarrow> (c # p) # ps))"

text \<open>\<open>sep.join(xs)\<close>.\<close>

fun join :: "string \<Rightarrow> string list \<Rightarrow> string" where
  "join sep [] = []"
| "join sep [x] = x"
| "join sep (x # y # xs) = x @ sep @ join sep (y # xs)"

text \<open>\<open>xs[-k]\<close> for \<open>k\<close> at least 1: \<open>IndexError\<close> when the list is shorter than \<open>k\<close>.\<close>

definition from_end :: "'a list \<Rightarrow> nat \<Rightarrow> error + 'a" where
  "from_end xs k = (if k \<le> length xs then Inr (xs ! (length xs - k)) else Inl IndexError)"

text \<open>\<open>re.compile("b0[0-9]").match(x)\<close>: the pattern is matched at the start of the
  string and does not have to reach its end.\<close>

definition is_digit :: "char \<Rightarrow> bool" where
  "is_digit c = (let n = (of_char c :: nat) in 48 \<le> n \<and> n \<le> 57)"

fun b_pattern_match :: "string \<Rightarrow> bool" where
  "b_pattern_match (c1 # c2 # c3 # _) = (c1 = CHR ''b'' \<and> c2 = CHR ''0'' \<and> is_digit c3)"
| "b_pattern_match _ = False"

text \<open>
  The loop of \<open>get_interfaces_by_type\<close>: one iteration per element of the initial
  prefix; each looks up one key and pops the prefix on a miss. The first component of
  the result is the list of keys passed to \<open>definitions.get\<close>, in order. A value that
  is present but empty is a miss (\<open>if interfaces_string:\<close>).
  The template file is a mapping from keys to comma-separated device names.
\<close>

fun interfaces_loop ::
  "(string \<rightharpoonup> string) \<Rightarrow> string \<Rightarrow> nat \<Rightarrow> string list \<Rightarrow> string list \<times> (error + string list)"
where
  "interfaces_loop definitions host_model 0 prefix = ([], Inl BadfishException)"
| "interfaces_loop definitions host_model (Suc n) prefix =
     (let prefix_string = join ''_'' prefix;
          key = prefix_string @ ''_'' @ host_model @ ''_interfaces''
      in case definitions key of
           None \<Rightarrow>
             (let (keys, r) = interfaces_loop definitions host_model n (butlast prefix)
              in (key # keys, r))
         | Some interfaces_string \<Rightarrow>
             if interfaces_string \<noteq> [] then ([key], Inr (split CHR '','' interfaces_string))
             else
               (let (keys, r) = interfaces_loop definitions host_model n (butlast prefix)
                in (key # keys, r)))"

definition get_interfaces_by_type ::
  "string \<Rightarrow> string \<Rightarrow> (string \<rightharpoonup> string) \<Rightarrow> string list \<times> (error + string list)"
where
  "get_interfaces_by_type host_name host_type definitions =
     (let host_name_split = split CHR ''-'' (hd (split CHR ''.'' host_name)) in
      case from_end host_name_split 1 of Inl e \<Rightarrow> ([], Inl e) | Inr model \<Rightarrow>
      case from_end host_name_split 2 of Inl e \<Rightarrow> ([], Inl e) | Inr host_blade \<Rightarrow>
      case from_end host_name_split 3 of Inl e \<Rightarrow> ([], Inl e) | Inr uloc \<Rightarrow>
      case from_end host_name_split 4 of Inl e \<Rightarrow> ([], Inl e) | Inr rack \<Rightarrow>
        (let prefix = [host_type, rack, uloc];
             host_model = (if b_pattern_match host_blade then model @ ''_'' @ host_blade
                           else model)
         in interfaces_loop definitions host_model (length prefix) prefix))"

section \<open>Boot order engine: reconciling the boot order\<close>

record device =
  Name :: string
  Index :: int
  Enabled :: bool

text \<open>
  The inner loop of \<open>change_boot_order\<close>: the first device called \<open>interface\<close> gets
  index \<open>i\<close>, and \<open>change\<close> is set when that differs from the index it had; the
  \<open>break\<close> leaves every later device of the same name alone.
\<close>

fun set_index :: "string \<Rightarrow> int \<Rightarrow> device list \<Rightarrow> device list \<times> bool" where
  "set_index interface i [] = ([], False)"
| "set_index interface i (d # ds) =
     (if interface = Name d then
        (if Index d \<noteq> i then (d\<lparr>Index := i\<rparr> # ds, True) else (d # ds, False))
      else (let (ds', change) = set_index interface i ds in (d # ds', change)))"

text \<open>The outer loop, over \<open>enumerate(valid_devices)\<close> from position \<open>i\<close> on.\<close>

fun order_devices :: "nat \<Rightarrow> string list \<Rightarrow> device list \<times> bool \<Rightarrow> device list \<times> bool" where
  "order_devices i [] acc = acc"
| "order_devices i (interface # rest) (ordered_devices, change) =
     (let (ds', changed) = set_index interface (int i) ordered_devices
      in order_devices (Suc i) rest (ds', change \<or> changed))"

definition valid_devices :: "string list \<Rightarrow> device list \<Rightarrow> string list" where
  "valid_devices interfaces boot_devices =
     filter (\<lambda>device. device \<in> set (map Name boot_devices)) interfaces"

text \<open>
  \<open>change_boot_order\<close> on the template \<open>interfaces\<close> and the live list: the devices
  with their new indices (the dicts of \<open>self.boot_devices\<close> themselves, which the copy
  of the list shares), the \<open>change\<close> flag, and the payload of the PATCH, issued only
  when \<open>change\<close> is set.
\<close>

record reconciled =
  ordered_devices :: "device list"
  change :: bool
  patch :: "device list option"

definition change_boot_order :: "string list \<Rightarrow> device list \<Rightarrow> reconciled" where
  "change_boot_order interfaces boot_devices =
     (let (ordered, changed) =
            order_devices 0 (valid_devices interfaces boot_devices) (boot_devices, False)
      in \<lparr>ordered_devices = ordered, change = changed,
          patch = (if changed then Some ordered else None)\<rparr>)"

section \<open>Host orchestrator\<close>

text \<open>
  \<open>execute_badfish\<close> for one host. \<open>action\<close> is the body of its \<open>try\<close> block (the
  session built by \<open>badfish_factory\<close> and the action the arguments select) and \<open>w\<close> the
  controller of that host. Only \<open>BadfishException\<close> is caught and turned into the
  result \<open>False\<close>; any other exception leaves the coroutine.
\<close>

definition execute_badfish :: "string \<Rightarrow> unit io \<Rightarrow> world \<Rightarrow> error + string \<times> bool" where
  "execute_badfish host_name action w =
     (case fst (action w) of
        Inr _ \<Rightarrow> Inr (host_name, True)
      | Inl e \<Rightarrow> if e = BadfishException then Inr (host_name, False) else Inl e)"

text \<open>
  \<open>asyncio.gather(*tasks, return_exceptions=True)\<close> in \<open>main\<close>: one entry per task, in
  the order of the tasks, which is the order of the host list; the entry of a task
  that raised is the exception itself.
\<close>

definition gather :: "(string \<times> unit io \<times> world) list \<Rightarrow> (error + string \<times> bool) list" where
  "gather tasks = map (\<lambda>(host_name, action, w). execute_badfish host_name action w) tasks"

text \<open>The summary loop of \<open>main\<close>: \<open>len(res)\<close> raises \<open>TypeError\<close> on an entry that is
  an exception.\<close>

fun report :: "(error + string \<times> bool) list \<Rightarrow> bool \<Rightarrow> error + bool" where
  "report [] result = Inr result"
| "report (Inl e # rest) result = Inl TypeError"
| "report (Inr (host_name, ok) # rest) result = report rest (if ok then result else False)"

text \<open>
  The host-list branch of \<open>main\<close>, lines 1860 to 1900: the exit code is 0 when every
  entry reports success (and when there is no entry) and 1 otherwise; an exception of
  the summary loop leaves \<open>main\<close>.
\<close>

definition main_host_list :: "(string \<times> unit io \<times> world) list \<Rightarrow> error + int" where
  "main_host_list tasks =
     (let results = gather tasks in
      if results = [] then Inr 0
      else (case report results True of
              Inl e \<Rightarrow> Inl e
            | Inr result \<Rightarrow> Inr (if result then 0 else 1)))"

section \<open>Concurrency permits\<close>

text \<open>
  \<open>Badfish.__init__\<close> runs \<open>self.semaphore = asyncio.Semaphore(50)\<close>, and
  \<open>execute_badfish\<close> builds one \<open>Badfish\<close> object per host. The state of a run holds every
  semaphore object created so far (its free permits; the handle of a semaphore is its
  position) and, for every \<open>Badfish\<close> object created so far, the handle of its
  \<open>self.semaphore\<close> and the number of its requests that are inside
  \<open>async with self.semaphore\<close>.
\<close>

record run =
  pools :: "nat list"
  holders :: "(nat \<times> nat) list"

definition Badfish_init :: "run \<Rightarrow> run" where
  "Badfish_init r =
     r\<lparr>pools := pools r @ [50], holders := holders r @ [(length (pools r), 0)]\<rparr>"

text \<open>
  What can happen in a run over \<open>n\<close> hosts: a task constructs its \<open>Badfish\<close> object, a
  request of session \<open>i\<close> enters \<open>async with self.semaphore\<close> (possible only while that
  semaphore has a free permit; otherwise the request waits), a request of session \<open>i\<close>
  leaves it. A schedule is a list of such events; \<open>None\<close> says that the schedule cannot
  happen.
\<close>

datatype event = Construct | Acquire nat | Release nat

fun fire :: "nat \<Rightarrow> event \<Rightarrow> run \<Rightarrow> run option" where
  "fire n Construct r = (if length (holders r) < n then Some (Badfish_init r) else None)"
| "fire n (Acquire i) r =
     (if i < length (holders r) then
        (let (h, k) = holders r ! i in
         if h < length (pools r) \<and> 0 < pools r ! h then
           Some (r\<lparr>pools := (pools r)[h := pools r ! h - 1],
                   holders := (holders r)[i := (h, Suc k)]\<rparr>)
         else None)
      else None)"
| "fire n (Release i) r =
     (if i < length (holders r) then
        (let (h, k) = holders r ! i in
         if h < length (pools r) \<and> 0 < k then
           Some (r\<lparr>pools := (pools r)[h := pools r ! h + 1],
                   holders := (holders r)[i := (h, k - 1)]\<rparr>)
         else None)
      else None)"

fun schedule :: "nat \<Rightarrow> event list \<Rightarrow> run \<Rightarrow> run option" where
  "schedule n [] r = Some r"
| "schedule n (e # es) r = (case fire n e r of None \<Rightarrow> None | Some r' \<Rightarrow> schedule n es r')"

definition in_flight :: "run \<Rightarrow> nat" where
  "in_flight r = sum_list (map snd (holders r))"

section \<open>Predicates used in the properties\<close>

text \<open>The device at position \<open>q\<close> is the first of its name in the list: the one the
  inner loop of \<open>change_boot_order\<close> stops at.\<close>

definition first_of_name :: "device list \<Rightarrow> nat \<Rightarrow> bool" where
  "first_of_name ds q = (Name (ds ! q) \<notin> set (map Name (take q ds)))"

text \<open>
  The replies \<open>get_job_status\<close> tells apart. \<open>job_scheduled\<close>: a 200 response whose
  \<open>Message\<close> is exactly the text that ends the poll. \<open>job_pending\<close>: an absent response
  (the tolerant GET failed), or a 200 response with any other \<open>Message\<close>.
\<close>

definition job_scheduled :: "reply \<Rightarrow> bool" where
  "job_scheduled r =
     (case r of
        NoAnswer \<Rightarrow> False
      | Answer resp \<Rightarrow>
          status resp = 200 \<and>
          (case body resp of
             None \<Rightarrow> False
           | Some data \<Rightarrow> py_getitem data ''Message'' = Inr (JStr ''Task successfully scheduled.'')))"

definition job_pending :: "reply \<Rightarrow> bool" where
  "job_pending r =
     (case r of
        NoAnswer \<Rightarrow> True
      | Answer resp \<Rightarrow>
          status resp = 200 \<and>
          (case body resp of
             None \<Rightarrow> False
           | Some data \<Rightarrow>
               (case py_getitem data ''Message'' of
                  Inl e \<Rightarrow> False
                | Inr message \<Rightarrow> message \<noteq> JStr ''Task successfully scheduled.'')))"

definition job_uri :: "session \<Rightarrow> string \<Rightarrow> string" where
  "job_uri s job_id = host_uri s @ manager_resource s @ ''/Jobs/'' @ job_id"

text \<open>
  The invariant of a run over \<open>n\<close> hosts: session \<open>i\<close> holds semaphore \<open>i\<close>, and the free
  permits of that semaphore and the requests of that session inside it add up to 50.
\<close>

definition run_ok :: "nat \<Rightarrow> run \<Rightarrow> bool" where
  "run_ok n r =
     (length (holders r) \<le> n \<and> length (pools r) = length (holders r) \<and>
      (\<forall>i<length (holders r). fst (holders r ! i) = i \<and> pools r ! i + snd (holders r ! i) = 50))"

text \<open>All \<open>m\<close> sessions constructed, the first \<open>j\<close> of them with one request in flight.\<close>

definition busy :: "nat \<Rightarrow> nat \<Rightarrow> run" where
  "busy m j =
     \<lparr>pools = map (\<lambda>i. if i < j then 49 else 50) [0..<m],
      holders = map (\<lambda>i. (i, if i < j then 1 else 0)) [0..<m]\<rparr>"

text \<open>A session and some responses for the examples.\<close>

definition example_session :: session where
  "example_session =
     \<lparr>host = ''h'', host_uri = ''https://h'', system_resource = ''/redfish/v1/Systems/1'',
      manager_resource = ''/redfish/v1/Managers/1'', retries = 3\<rparr>"

definition power_reply :: "string \<Rightarrow> reply" where
  "power_reply p = Answer \<lparr>status = 200, body = Some (JObj [(''PowerState'', JStr p)])\<rparr>"

definition reset_types_reply :: "string list \<Rightarrow> reply" where
  "reset_types_reply ts =
     Answer \<lparr>status = 200,
             body = Some (JObj [(''PowerState'', JStr ''On''),
                                (''Actions'', JObj [(''#ComputerSystem.Reset'',
                                   JObj [(''ResetType@Redfish.AllowableValues'', JArr (map JStr ts))])])])\<rparr>"

definition no_content :: reply where
  "no_content = Answer \<lparr>status = 204, body = None\<rparr>"

section \<open>Properties: choice of the reset type\<close>

lemmas example_defs = example_session_def power_reply_def reset_types_reply_def no_content_def






section \<open>Properties: reconciling the boot order\<close>

lemma set_index_names: "map Name (fst (set_index n i ds)) = map Name ds"
  by (induction ds) (auto split: prod.splits)

lemma set_index_length: "length (fst (set_index n i ds)) = length ds"
  using set_index_names [of n i ds] by (metis length_map)

lemma first_of_name_0: "first_of_name (d # ds) 0"
  by (simp add: first_of_name_def)

lemma first_of_name_Suc:
  "first_of_name (d # ds) (Suc q) = (Name (ds ! q) \<noteq> Name d \<and> first_of_name ds q)"
  by (auto simp: first_of_name_def)

lemma set_index_Index:
  "q < length ds \<Longrightarrow>
   Index (fst (set_index n i ds) ! q) =
     (if Name (ds ! q) = n \<and> first_of_name ds q then i else Index (ds ! q))"
proof (induction ds arbitrary: q)
  case Nil
  then show ?case by simp
next
  case (Cons d ds)
  show ?case
  proof (cases q)
    case 0
    then show ?thesis by (auto simp: first_of_name_0 split: prod.splits)
  next
    case (Suc q')
    with Cons.prems have "q' < length ds" by simp
    from Cons.IH [OF this] Suc show ?thesis
      by (auto simp: first_of_name_Suc split: prod.splits)
  qed
qed

lemma set_index_unchanged: "\<not> snd (set_index n i ds) \<Longrightarrow> fst (set_index n i ds) = ds"
  by (induction ds) (auto split: prod.splits)

lemma set_index_change:
  "snd (set_index n i ds) =
     (\<exists>q<length ds. Name (ds ! q) = n \<and> first_of_name ds q \<and> Index (ds ! q) \<noteq> i)"
proof (induction ds)
  case Nil
  then show ?case by simp
next
  case (Cons d ds)
  show ?case
  proof (cases "n = Name d")
    case True
    have "(\<exists>q<length (d # ds). Name ((d # ds) ! q) = n \<and> first_of_name (d # ds) q \<and> Index ((d # ds) ! q) \<noteq> i)
          = (Index d \<noteq> i)"
      using True
      apply (auto simp: first_of_name_0)
      subgoal for q by (cases q) (auto simp: first_of_name_Suc)
      done
    then show ?thesis using True by simp
  next
    case False
    have "(\<exists>q<length (d # ds). Name ((d # ds) ! q) = n \<and> first_of_name (d # ds) q \<and> Index ((d # ds) ! q) \<noteq> i)
          = (\<exists>q<length ds. Name (ds ! q) = n \<and> first_of_name ds q \<and> Index (ds ! q) \<noteq> i)"
      using False
      apply (auto)
      subgoal for q by (cases q) (auto simp: first_of_name_Suc)
      subgoal for q by (rule exI [of _ "Suc q"]) (auto simp: first_of_name_Suc)
      done
    then show ?thesis using False Cons.IH
      by (cases "set_index n i ds") simp
  qed
qed

lemma first_of_name_cong:
  "map Name ds' = map Name ds \<Longrightarrow> q < length ds \<Longrightarrow> first_of_name ds' q = first_of_name ds q"
  unfolding first_of_name_def
  by (metis length_map nth_map take_map)

lemma order_devices_inv:
  "order_devices i ns (ds, c) = (ds', c') \<Longrightarrow>
   map Name ds' = map Name ds \<and>
   (\<forall>q<length ds.
      (if Name (ds ! q) \<in> set ns \<and> first_of_name ds q
       then \<exists>j<length ns. ns ! j = Name (ds ! q) \<and> Index (ds' ! q) = int (i + j)
       else Index (ds' ! q) = Index (ds ! q)))"
proof (induction ns arbitrary: i ds c)
  case Nil
  then show ?case by simp
next
  case (Cons n ns)
  obtain ds1 ch where s: "set_index n (int i) ds = (ds1, ch)" by (cases "set_index n (int i) ds")
  with Cons.prems have r: "order_devices (Suc i) ns (ds1, c \<or> ch) = (ds', c')" by simp
  have n1: "map Name ds1 = map Name ds" using set_index_names [of n "int i" ds] s by simp
  then have l1: "length ds1 = length ds" by (metis length_map)
  from Cons.IH [OF r] have names: "map Name ds' = map Name ds1"
    and ih: "\<And>q. q < length ds1 \<Longrightarrow>
      (if Name (ds1 ! q) \<in> set ns \<and> first_of_name ds1 q
       then \<exists>j<length ns. ns ! j = Name (ds1 ! q) \<and> Index (ds' ! q) = int (Suc i + j)
       else Index (ds' ! q) = Index (ds1 ! q))"
    by auto
  have main: "\<forall>q<length ds.
      (if Name (ds ! q) \<in> set (n # ns) \<and> first_of_name ds q
       then \<exists>j<length (n # ns). (n # ns) ! j = Name (ds ! q) \<and> Index (ds' ! q) = int (i + j)
       else Index (ds' ! q) = Index (ds ! q))"
  proof (intro allI impI)
    fix q assume q: "q < length ds"
    have nq: "Name (ds1 ! q) = Name (ds ! q)" using n1 q by (metis length_map nth_map)
    have fq: "first_of_name ds1 q = first_of_name ds q" using first_of_name_cong [OF n1 q] .
    have iq: "Index (ds1 ! q) = (if Name (ds ! q) = n \<and> first_of_name ds q then int i else Index (ds ! q))"
      using set_index_Index [OF q, of n "int i"] s by simp
    have ihq: "(if Name (ds ! q) \<in> set ns \<and> first_of_name ds q
       then \<exists>j<length ns. ns ! j = Name (ds ! q) \<and> Index (ds' ! q) = int (Suc i + j)
       else Index (ds' ! q) = Index (ds1 ! q))"
      using ih [of q] q l1 unfolding nq fq by simp
    show "(if Name (ds ! q) \<in> set (n # ns) \<and> first_of_name ds q
       then \<exists>j<length (n # ns). (n # ns) ! j = Name (ds ! q) \<and> Index (ds' ! q) = int (i + j)
       else Index (ds' ! q) = Index (ds ! q))"
    proof (cases "Name (ds ! q) \<in> set ns \<and> first_of_name ds q")
      case True
      with ihq obtain j where "j < length ns" "ns ! j = Name (ds ! q)" "Index (ds' ! q) = int (Suc i + j)"
        by auto
      then have "Suc j < length (n # ns) \<and> (n # ns) ! Suc j = Name (ds ! q) \<and> Index (ds' ! q) = int (i + Suc j)"
        by simp
      then show ?thesis using True by (auto intro: exI [of _ "Suc j"])
    next
      case False
      with ihq have e: "Index (ds' ! q) = Index (ds1 ! q)" by auto
      show ?thesis
      proof (cases "Name (ds ! q) = n \<and> first_of_name ds q")
        case True
        with e iq have "Index (ds' ! q) = int (i + 0)" by simp
        then have "0 < length (n # ns) \<and> (n # ns) ! 0 = Name (ds ! q) \<and> Index (ds' ! q) = int (i + 0)"
          using True by simp
        then show ?thesis using True by (auto intro: exI [of _ 0])
      next
        case False2: False
        with False e iq show ?thesis by auto
      qed
    qed
  qed
  from names n1 have "map Name ds' = map Name ds" by simp
  with main show ?case by blast
qed


lemma order_devices_noop:
  "(\<forall>j<length ns. \<not> snd (set_index (ns ! j) (int (i + j)) ds)) \<Longrightarrow>
   order_devices i ns (ds, c) = (ds, c)"
proof (induction ns arbitrary: i)
  case Nil
  then show ?case by simp
next
  case (Cons n ns)
  from Cons.prems have h0: "\<not> snd (set_index n (int i) ds)" by fastforce
  then have e: "set_index n (int i) ds = (ds, False)"
    using set_index_unchanged [OF h0] by (cases "set_index n (int i) ds") simp
  have "\<forall>j<length ns. \<not> snd (set_index (ns ! j) (int (Suc i + j)) ds)"
  proof (intro allI impI)
    fix j assume "j < length ns"
    then have "Suc j < length (n # ns)" by simp
    from Cons.prems [rule_format, OF this] show "\<not> snd (set_index (ns ! j) (int (Suc i + j)) ds)"
      by simp
  qed
  from Cons.IH [OF this] e show ?case by simp
qed

lemma valid_devices_names:
  "map Name ds' = map Name ds \<Longrightarrow> valid_devices interfaces ds' = valid_devices interfaces ds"
  by (simp add: valid_devices_def)

lemma valid_devices_subset: "set (valid_devices interfaces ds) \<subseteq> set interfaces"
  by (auto simp: valid_devices_def)

lemma valid_devices_mem:
  "q < length ds \<Longrightarrow> (Name (ds ! q) \<in> set (valid_devices interfaces ds)) = (Name (ds ! q) \<in> set interfaces)"
  by (auto simp: valid_devices_def)

lemma change_boot_order_distinct:
  assumes d: "distinct (map Index boot_devices)"
    and u: "\<forall>q<length boot_devices.
              Name (boot_devices ! q) \<notin> set interfaces \<or> \<not> first_of_name boot_devices q \<longrightarrow>
              Index (boot_devices ! q) < 0 \<or>
              int (length (valid_devices interfaces boot_devices)) \<le> Index (boot_devices ! q)"
  shows "distinct (map Index (ordered_devices (change_boot_order interfaces boot_devices)))"
proof -
  let ?ns = "valid_devices interfaces boot_devices"
  obtain ds1 c1 where r1: "order_devices 0 ?ns (boot_devices, False) = (ds1, c1)"
    by (cases "order_devices 0 ?ns (boot_devices, False)")
  then have o1: "ordered_devices (change_boot_order interfaces boot_devices) = ds1"
    by (simp add: change_boot_order_def)
  from order_devices_inv [OF r1] have names: "map Name ds1 = map Name boot_devices"
    and inv: "\<forall>q<length boot_devices.
      (if Name (boot_devices ! q) \<in> set ?ns \<and> first_of_name boot_devices q
       then \<exists>j<length ?ns. ?ns ! j = Name (boot_devices ! q) \<and> Index (ds1 ! q) = int (0 + j)
       else Index (ds1 ! q) = Index (boot_devices ! q))"
    by blast+
  have len: "length ds1 = length boot_devices" using names by (metis length_map)
  have lt: "Index (ds1 ! p) \<noteq> Index (ds1 ! q)"
    if p: "p < length boot_devices" and q: "q < length boot_devices" and pq: "p < q" for p q
  proof -
    let ?tp = "Name (boot_devices ! p) \<in> set ?ns \<and> first_of_name boot_devices p"
    let ?tq = "Name (boot_devices ! q) \<in> set ?ns \<and> first_of_name boot_devices q"
    have orig: "Index (boot_devices ! p) \<noteq> Index (boot_devices ! q)"
      using d p q pq by (simp add: distinct_conv_nth)
    have out: "\<not> (Name (boot_devices ! r) \<in> set ?ns \<and> first_of_name boot_devices r) \<Longrightarrow>
               Index (boot_devices ! r) < 0 \<or> int (length ?ns) \<le> Index (boot_devices ! r)"
      if "r < length boot_devices" for r
      using u that valid_devices_mem [OF that, of interfaces] by blast
    show ?thesis
    proof (cases ?tp)
      case tp: True
      with inv p obtain j where j: "j < length ?ns" "?ns ! j = Name (boot_devices ! p)"
        "Index (ds1 ! p) = int j" by fastforce
      show ?thesis
      proof (cases ?tq)
        case tq: True
        with inv q obtain k where k: "k < length ?ns" "?ns ! k = Name (boot_devices ! q)"
          "Index (ds1 ! q) = int k" by fastforce
        have "Name (boot_devices ! p) \<in> set (map Name (take q boot_devices))"
          using p q pq by (force simp: in_set_conv_nth)
        with tq have "Name (boot_devices ! q) \<noteq> Name (boot_devices ! p)"
          by (auto simp: first_of_name_def)
        with j k have "j \<noteq> k" by auto
        with j k show ?thesis by simp
      next
        case False
        with inv q have "Index (ds1 ! q) = Index (boot_devices ! q)" by auto
        with out [OF q False] j show ?thesis by auto
      qed
    next
      case False
      with inv p have ep: "Index (ds1 ! p) = Index (boot_devices ! p)" by auto
      show ?thesis
      proof (cases ?tq)
        case tq: True
        with inv q obtain k where k: "k < length ?ns" "?ns ! k = Name (boot_devices ! q)"
          "Index (ds1 ! q) = int k" by fastforce
        with out [OF p False] ep show ?thesis by auto
      next
        case fq: False
        with inv q have "Index (ds1 ! q) = Index (boot_devices ! q)" by auto
        with ep orig show ?thesis by simp
      qed
    qed
  qed
  have "distinct (map Index ds1)"
    unfolding distinct_conv_nth
  proof (intro allI impI)
    fix a b assume a: "a < length (map Index ds1)" and b: "b < length (map Index ds1)" and ab: "a \<noteq> b"
    from ab have "a < b \<or> b < a" by arith
    then show "map Index ds1 ! a \<noteq> map Index ds1 ! b"
      using lt [of a b] lt [of b a] a b len by auto
  qed
  then show ?thesis unfolding o1 .
qed


text \<open>
  Claim C2, as amended. The reconciliation gives the first device of every valid
  template name an index in \<open>0..k-1\<close> and leaves every other device's index unchanged.
  So the resulting list has pairwise unique indices whenever the live list had and no
  device that is left unchanged (its name is not in the template, or an earlier device
  has the same name) had an index in \<open>0..k-1\<close>, where \<open>k\<close> is the number of valid
  template devices.
\<close>

theorem C2_indices_unique_when_rest_outside:
  "map Name (ordered_devices (change_boot_order interfaces boot_devices)) = map Name boot_devices
   \<and> (\<forall>q<length boot_devices.
        if Name (boot_devices ! q) \<in> set interfaces \<and> first_of_name boot_devices q
        then 0 \<le> Index (ordered_devices (change_boot_order interfaces boot_devices) ! q)
           \<and> Index (ordered_devices (change_boot_order interfaces boot_devices) ! q)
               < int (length (valid_devices interfaces boot_devices))
        else Index (ordered_devices (change_boot_order interfaces boot_devices) ! q)
               = Index (boot_devices ! q))
   \<and> (distinct (map Index boot_devices)
        \<and> (\<forall>q<length boot_devices.
              Name (boot_devices ! q) \<notin> set interfaces \<or> \<not> first_of_name boot_devices q \<longrightarrow>
              Index (boot_devices ! q) < 0 \<or>
              int (length (valid_devices interfaces boot_devices)) \<le> Index (boot_devices ! q))
        \<longrightarrow> distinct (map Index (ordered_devices (change_boot_order interfaces boot_devices))))"
proof -
  let ?ns = "valid_devices interfaces boot_devices"
  obtain ds1 c1 where r1: "order_devices 0 ?ns (boot_devices, False) = (ds1, c1)"
    by (cases "order_devices 0 ?ns (boot_devices, False)")
  then have o1: "ordered_devices (change_boot_order interfaces boot_devices) = ds1"
    by (simp add: change_boot_order_def)
  from order_devices_inv [OF r1] have names: "map Name ds1 = map Name boot_devices"
    and inv: "\<forall>q<length boot_devices.
      (if Name (boot_devices ! q) \<in> set ?ns \<and> first_of_name boot_devices q
       then \<exists>j<length ?ns. ?ns ! j = Name (boot_devices ! q) \<and> Index (ds1 ! q) = int (0 + j)
       else Index (ds1 ! q) = Index (boot_devices ! q))"
    by blast+
  have idx: "\<forall>q<length boot_devices.
        if Name (boot_devices ! q) \<in> set interfaces \<and> first_of_name boot_devices q
        then 0 \<le> Index (ds1 ! q) \<and> Index (ds1 ! q) < int (length ?ns)
        else Index (ds1 ! q) = Index (boot_devices ! q)"
  proof (intro allI impI)
    fix q assume q: "q < length boot_devices"
    from inv q have iq:
      "if Name (boot_devices ! q) \<in> set ?ns \<and> first_of_name boot_devices q
       then \<exists>j<length ?ns. ?ns ! j = Name (boot_devices ! q) \<and> Index (ds1 ! q) = int (0 + j)
       else Index (ds1 ! q) = Index (boot_devices ! q)"
      by blast
    note m = valid_devices_mem [OF q, of interfaces]
    show "if Name (boot_devices ! q) \<in> set interfaces \<and> first_of_name boot_devices q
        then 0 \<le> Index (ds1 ! q) \<and> Index (ds1 ! q) < int (length ?ns)
        else Index (ds1 ! q) = Index (boot_devices ! q)"
    proof (cases "Name (boot_devices ! q) \<in> set interfaces \<and> first_of_name boot_devices q")
      case True
      with iq m obtain j where "j < length ?ns" "Index (ds1 ! q) = int (0 + j)" by auto
      with True show ?thesis by simp
    next
      case False
      with iq m show ?thesis by auto
    qed
  qed
  have dist: "distinct (map Index ds1)"
    if "distinct (map Index boot_devices)
        \<and> (\<forall>q<length boot_devices.
              Name (boot_devices ! q) \<notin> set interfaces \<or> \<not> first_of_name boot_devices q \<longrightarrow>
              Index (boot_devices ! q) < 0 \<or> int (length ?ns) \<le> Index (boot_devices ! q))"
    using change_boot_order_distinct [of boot_devices interfaces] that unfolding o1 by blast
  from names idx dist show ?thesis unfolding o1 by blast
qed

theorem C2_indices_unique_when_rest_outside_witness:
  "distinct (map Index [\<lparr>Name = ''A'', Index = 0, Enabled = True\<rparr>, \<lparr>Name = ''B'', Index = 2, Enabled = True\<rparr>, \<lparr>Name = ''C'', Index = 1, Enabled = True\<rparr>]) \<and>
   distinct (map Index (ordered_devices
     (change_boot_order [''C'', ''A'', ''X''] [\<lparr>Name = ''A'', Index = 0, Enabled = True\<rparr>, \<lparr>Name = ''B'', Index = 2, Enabled = True\<rparr>, \<lparr>Name = ''C'', Index = 1, Enabled = True\<rparr>])))"
proof -
  let ?ds = "[\<lparr>Name = ''A'', Index = 0, Enabled = True\<rparr>, \<lparr>Name = ''B'', Index = 2, Enabled = True\<rparr>, \<lparr>Name = ''C'', Index = 1, Enabled = True\<rparr>]"
  let ?is = "[''C'', ''A'', ''X'']"
  have d: "distinct (map Index ?ds)" by simp
  have u: "\<forall>q<length ?ds.
              Name (?ds ! q) \<notin> set ?is \<or> \<not> first_of_name ?ds q \<longrightarrow>
              Index (?ds ! q) < 0 \<or>
              int (length (valid_devices ?is ?ds)) \<le> Index (?ds ! q)"
    by (simp add: valid_devices_def first_of_name_def All_less_Suc)
  from C2_indices_unique_when_rest_outside [of ?is ?ds] d u show ?thesis by blast
qed

text \<open>
  The claim as stated fails: the live list \<open>A:0, B:1\<close> has unique indices, and the
  template \<open>B\<close> gives \<open>B\<close> index 0 while \<open>A\<close> keeps its index 0.
\<close>

theorem C2_indices_unique_counterexample:
  "distinct (map Index [\<lparr>Name = ''A'', Index = 0, Enabled = True\<rparr>, \<lparr>Name = ''B'', Index = 1, Enabled = True\<rparr>]) \<and>
   map Index (ordered_devices (change_boot_order [''B''] [\<lparr>Name = ''A'', Index = 0, Enabled = True\<rparr>, \<lparr>Name = ''B'', Index = 1, Enabled = True\<rparr>])) = [0, 0] \<and>
   \<not> distinct (map Index (ordered_devices (change_boot_order [''B''] [\<lparr>Name = ''A'', Index = 0, Enabled = True\<rparr>, \<lparr>Name = ''B'', Index = 1, Enabled = True\<rparr>])))"
  by (simp add: change_boot_order_def valid_devices_def)

text \<open>
  Claim C4, as amended. For every live device list and every template whose valid
  device names are pairwise different, reconciling once and then reconciling the
  resulting list against the same template leaves the list as it is, with the change
  flag false and no PATCH.
\<close>

theorem C4_second_run_no_change:
  assumes "distinct (valid_devices interfaces boot_devices)"
  shows "change_boot_order interfaces (ordered_devices (change_boot_order interfaces boot_devices))
         = \<lparr>ordered_devices = ordered_devices (change_boot_order interfaces boot_devices),
             change = False, patch = None\<rparr>"
proof -
  let ?ns = "valid_devices interfaces boot_devices"
  obtain ds1 c1 where r1: "order_devices 0 ?ns (boot_devices, False) = (ds1, c1)"
    by (cases "order_devices 0 ?ns (boot_devices, False)")
  then have o1: "ordered_devices (change_boot_order interfaces boot_devices) = ds1"
    by (simp add: change_boot_order_def)
  from order_devices_inv [OF r1] have names: "map Name ds1 = map Name boot_devices"
    and inv: "\<forall>q<length boot_devices.
      (if Name (boot_devices ! q) \<in> set ?ns \<and> first_of_name boot_devices q
       then \<exists>j<length ?ns. ?ns ! j = Name (boot_devices ! q) \<and> Index (ds1 ! q) = int (0 + j)
       else Index (ds1 ! q) = Index (boot_devices ! q))"
    by blast+
  have len: "length ds1 = length boot_devices" using names by (metis length_map)
  have v: "valid_devices interfaces ds1 = ?ns" using valid_devices_names [OF names] .
  have "\<forall>j<length ?ns. \<not> snd (set_index (?ns ! j) (int (0 + j)) ds1)"
  proof (intro allI impI notI)
    fix j assume j: "j < length ?ns" and ch: "snd (set_index (?ns ! j) (int (0 + j)) ds1)"
    from ch obtain q where q: "q < length ds1" and nq: "Name (ds1 ! q) = ?ns ! j"
      and fq: "first_of_name ds1 q" and iq: "Index (ds1 ! q) \<noteq> int (0 + j)"
      unfolding set_index_change by blast
    have q': "q < length boot_devices" using q len by simp
    have nq': "Name (boot_devices ! q) = ?ns ! j" using nq names q' by (metis length_map nth_map)
    have fq': "first_of_name boot_devices q" using fq first_of_name_cong [OF names q'] by simp
    have "Name (boot_devices ! q) \<in> set ?ns" using nq' j by simp
    with inv q' fq' obtain j' where j': "j' < length ?ns" "?ns ! j' = Name (boot_devices ! q)"
        "Index (ds1 ! q) = int (0 + j')"
      by fastforce
    from j' j nq' assms have "j' = j" by (simp add: nth_eq_iff_index_eq)
    with j' iq show False by simp
  qed
  from order_devices_noop [OF this] have "order_devices 0 ?ns (ds1, False) = (ds1, False)" .
  then show ?thesis unfolding o1 by (simp add: change_boot_order_def v)
qed

theorem C4_second_run_no_change_witness:
  "distinct (valid_devices [''C'', ''A'', ''X''] [\<lparr>Name = ''A'', Index = 0, Enabled = True\<rparr>, \<lparr>Name = ''B'', Index = 1, Enabled = True\<rparr>, \<lparr>Name = ''C'', Index = 2, Enabled = True\<rparr>]) \<and>
   change (change_boot_order [''C'', ''A'', ''X''] [\<lparr>Name = ''A'', Index = 0, Enabled = True\<rparr>, \<lparr>Name = ''B'', Index = 1, Enabled = True\<rparr>, \<lparr>Name = ''C'', Index = 2, Enabled = True\<rparr>]) = True \<and>
   change_boot_order [''C'', ''A'', ''X'']
     (ordered_devices (change_boot_order [''C'', ''A'', ''X''] [\<lparr>Name = ''A'', Index = 0, Enabled = True\<rparr>, \<lparr>Name = ''B'', Index = 1, Enabled = True\<rparr>, \<lparr>Name = ''C'', Index = 2, Enabled = True\<rparr>]))
   = \<lparr>ordered_devices = [\<lparr>Name = ''A'', Index = 1, Enabled = True\<rparr>, \<lparr>Name = ''B'', Index = 1, Enabled = True\<rparr>, \<lparr>Name = ''C'', Index = 0, Enabled = True\<rparr>], change = False, patch = None\<rparr>"
proof -
  have d: "distinct (valid_devices [''C'', ''A'', ''X''] [\<lparr>Name = ''A'', Index = 0, Enabled = True\<rparr>, \<lparr>Name = ''B'', Index = 1, Enabled = True\<rparr>, \<lparr>Name = ''C'', Index = 2, Enabled = True\<rparr>])"
    by (simp add: valid_devices_def)
  have o: "ordered_devices (change_boot_order [''C'', ''A'', ''X''] [\<lparr>Name = ''A'', Index = 0, Enabled = True\<rparr>, \<lparr>Name = ''B'', Index = 1, Enabled = True\<rparr>, \<lparr>Name = ''C'', Index = 2, Enabled = True\<rparr>])
     = [\<lparr>Name = ''A'', Index = 1, Enabled = True\<rparr>, \<lparr>Name = ''B'', Index = 1, Enabled = True\<rparr>, \<lparr>Name = ''C'', Index = 0, Enabled = True\<rparr>]"
    by (simp add: change_boot_order_def valid_devices_def)
  have c: "change (change_boot_order [''C'', ''A'', ''X''] [\<lparr>Name = ''A'', Index = 0, Enabled = True\<rparr>, \<lparr>Name = ''B'', Index = 1, Enabled = True\<rparr>, \<lparr>Name = ''C'', Index = 2, Enabled = True\<rparr>]) = True"
    by (simp add: change_boot_order_def valid_devices_def)
  from C4_second_run_no_change [OF d] d o c show ?thesis by simp
qed

text \<open>
  The claim as stated fails for a template that repeats a name: with the template
  \<open>A, A\<close> the first run leaves \<open>A\<close> at index 1, and the second run moves it to 0 and
  back to 1, sets the change flag and issues the PATCH again.
\<close>

theorem C4_second_run_counterexample:
  "change (change_boot_order [''A'', ''A'']
       (ordered_devices (change_boot_order [''A'', ''A''] [\<lparr>Name = ''A'', Index = 0, Enabled = True\<rparr>]))) = True
   \<and> patch (change_boot_order [''A'', ''A'']
       (ordered_devices (change_boot_order [''A'', ''A''] [\<lparr>Name = ''A'', Index = 0, Enabled = True\<rparr>]))) = Some [\<lparr>Name = ''A'', Index = 1, Enabled = True\<rparr>]"
  by (simp add: change_boot_order_def valid_devices_def)

section \<open>Properties: the interfaces template of a host type\<close>

lemma from_end_suffix:
  "from_end (pre @ [a, b, c, d]) (Suc 0) = Inr d"
  "from_end (pre @ [a, b, c, d]) 2 = Inr c"
  "from_end (pre @ [a, b, c, d]) 3 = Inr b"
  "from_end (pre @ [a, b, c, d]) 4 = Inr a"
  by (simp_all add: from_end_def nth_append)

lemma interfaces_loop_three:
  "interfaces_loop definitions m (Suc (Suc (Suc 0))) [t, r, u] =
    (let k1 = t @ ''_'' @ r @ ''_'' @ u @ ''_'' @ m @ ''_interfaces'';
         k2 = t @ ''_'' @ r @ ''_'' @ m @ ''_interfaces'';
         k3 = t @ ''_'' @ m @ ''_interfaces'';
         found = (\<lambda>k. case definitions k of None \<Rightarrow> False | Some v \<Rightarrow> v \<noteq> [])
     in if found k1 then ([k1], Inr (split CHR '','' (the (definitions k1))))
        else if found k2 then ([k1, k2], Inr (split CHR '','' (the (definitions k2))))
        else if found k3 then ([k1, k2, k3], Inr (split CHR '','' (the (definitions k3))))
        else ([k1, k2, k3], Inl BadfishException))"
  by (simp add: Let_def split: option.splits)

text \<open>
  Claim C1, as amended. For every host whose name (up to the first dot) ends in the
  components rack, unit-location, blade, model, and every template mapping, resolving
  the interfaces template for a host type looks up exactly three candidate keys, in the
  order \<open>{type}_{rack}_{uloc}_{m}\<close>, \<open>{type}_{rack}_{m}\<close>, \<open>{type}_{m}\<close> (each suffixed
  \<open>_interfaces\<close>), where \<open>m\<close> is \<open>{model}_{blade}\<close> when the blade component starts with
  \<open>b0\<close> and a digit and \<open>{model}\<close> otherwise. It stops at the first key whose value is
  present and not empty and returns that value split at the commas, and it fails with
  \<open>BadfishException\<close> (the template was not found) when no key has such a value.
\<close>

theorem C1_three_keys_in_order:
  assumes "split CHR ''-'' (hd (split CHR ''.'' host_name)) = pre @ [rack, uloc, blade, model]"
  shows "get_interfaces_by_type host_name host_type definitions =
    (let m = (if b_pattern_match blade then model @ ''_'' @ blade else model);
         k1 = host_type @ ''_'' @ rack @ ''_'' @ uloc @ ''_'' @ m @ ''_interfaces'';
         k2 = host_type @ ''_'' @ rack @ ''_'' @ m @ ''_interfaces'';
         k3 = host_type @ ''_'' @ m @ ''_interfaces'';
         found = (\<lambda>k. case definitions k of None \<Rightarrow> False | Some v \<Rightarrow> v \<noteq> [])
     in if found k1 then ([k1], Inr (split CHR '','' (the (definitions k1))))
        else if found k2 then ([k1, k2], Inr (split CHR '','' (the (definitions k2))))
        else if found k3 then ([k1, k2, k3], Inr (split CHR '','' (the (definitions k3))))
        else ([k1, k2, k3], Inl BadfishException))"
proof -
  let ?m = "if b_pattern_match blade then model @ ''_'' @ blade else model"
  have "get_interfaces_by_type host_name host_type definitions =
          interfaces_loop definitions ?m (Suc (Suc (Suc 0))) [host_type, rack, uloc]"
    unfolding get_interfaces_by_type_def assms Let_def
    by (simp only: from_end_suffix One_nat_def sum.case list.size) simp
  then show ?thesis
    by (simp only: interfaces_loop_three Let_def)
qed

theorem C1_three_keys_in_order_witness:
  "split CHR ''-'' (hd (split CHR ''.'' ''f20-h01-000-r620.example.com''))
     = [] @ [''f20'', ''h01'', ''000'', ''r620'']
   \<and> get_interfaces_by_type ''f20-h01-000-r620.example.com'' ''director''
        [''director_f20_r620_interfaces'' \<mapsto> ''em1,em2'']
     = ([''director_f20_h01_r620_interfaces'', ''director_f20_r620_interfaces''],
        Inr [''em1'', ''em2''])"
proof -
  have h: "split CHR ''-'' (hd (split CHR ''.'' ''f20-h01-000-r620.example.com''))
             = [] @ [''f20'', ''h01'', ''000'', ''r620'']"
    by simp
  show ?thesis
    using h C1_three_keys_in_order [OF h, of "''director''"
                "[''director_f20_r620_interfaces'' \<mapsto> ''em1,em2'']"]
    by (simp add: Let_def)
qed

text \<open>
  The claim as stated fails: for the host \<open>rack1-u2-b03-640\<close> the blade suffix stays in
  every key, so the keys looked up are not the four of the claim, and a mapping that
  holds the claim's last key \<open>t_640_interfaces\<close> is answered with \<open>BadfishException\<close>.
\<close>

theorem C1_four_keys_counterexample:
  "get_interfaces_by_type ''rack1-u2-b03-640'' ''t'' [''t_640_interfaces'' \<mapsto> ''em1,em2'']
     = ([''t_rack1_u2_640_b03_interfaces'', ''t_rack1_640_b03_interfaces'',
         ''t_640_b03_interfaces''],
        Inl BadfishException)"
  by (simp add: get_interfaces_by_type_def from_end_def is_digit_def)

section \<open>Properties: the request layer\<close>

lemma get_request_answer:
  "gets w = Answer resp # rest \<Longrightarrow>
   get_request uri c w = (Inr (Some resp), w\<lparr>gets := rest, sent := sent w @ [Get uri]\<rparr>)"
  by (simp add: get_request_def)

lemma get_request_no_answer:
  "gets w = NoAnswer # rest \<Longrightarrow>
   get_request uri True w = (Inr None, w\<lparr>gets := rest, sent := sent w @ [Get uri]\<rparr>)"
  by (simp add: get_request_def)

lemma get_request_silent:
  "gets w = [] \<Longrightarrow>
   get_request uri True w = (Inr None, w\<lparr>gets := [], sent := sent w @ [Get uri]\<rparr>)"
  by (simp add: get_request_def)

lemma post_request_answer:
  "posts w = Answer resp # rest \<Longrightarrow>
   post_request uri payload w = (Inr resp, w\<lparr>posts := rest, sent := sent w @ [Post uri payload]\<rparr>)"
  by (simp add: post_request_def)

lemma send_reset_accepted:
  "posts w = Answer resp # rest \<Longrightarrow> status resp \<in> {200, 204, 409} \<Longrightarrow>
   send_reset s t w = (Inr (), w\<lparr>posts := rest,
      sent := sent w @ [Post (host_uri s @ system_resource s @ ''/Actions/ComputerSystem.Reset'') (JObj [(''ResetType'', JStr t)])]\<rparr>)"
  by (auto simp: send_reset_def bind_def post_request_answer return_def)

section \<open>Properties: boot mode\<close>

text \<open>
  Claim C10, as amended. For every \<open>get_bios_boot_mode\<close> call whose response body is a
  JSON object in which the \<open>Attributes\<close> member is missing, or is itself an object
  without a \<open>BootMode\<close> member, the call returns the string \<open>Bios\<close> instead of raising,
  and \<open>get_boot_seq\<close> yields the legacy key \<open>BootSeq\<close>.
\<close>

theorem C10_missing_key_gives_Bios:
  assumes "gets w = Answer resp # rest"
    and "body resp = Some (JObj kvs)"
    and "map_of kvs ''Attributes'' = None \<or>
         (\<exists>avs. map_of kvs ''Attributes'' = Some (JObj avs) \<and> map_of avs ''BootMode'' = None)"
  shows "get_bios_boot_mode s w =
           (Inr (JStr ''Bios''),
            w\<lparr>gets := rest, sent := sent w @ [Get (host_uri s @ system_resource s @ ''/Bios'')]\<rparr>)
         \<and> get_boot_seq s w =
           (Inr ''BootSeq'',
            w\<lparr>gets := rest, sent := sent w @ [Get (host_uri s @ system_resource s @ ''/Bios'')]\<rparr>)"
proof -
  have m: "get_bios_boot_mode s w =
           (Inr (JStr ''Bios''),
            w\<lparr>gets := rest, sent := sent w @ [Get (host_uri s @ system_resource s @ ''/Bios'')]\<rparr>)"
    using assms(2,3)
    by (auto simp: get_bios_boot_mode_def bind_def get_request_answer [OF assms(1)] return_def)
  show ?thesis using m by (simp add: get_boot_seq_def bind_def return_def)
qed

theorem C10_missing_key_gives_Bios_witness:
  "get_bios_boot_mode \<lparr>host = ''h'', host_uri = ''https://h'', system_resource = ''/redfish/v1/Systems/1'',
       manager_resource = ''/redfish/v1/Managers/1'', retries = 3\<rparr>
     \<lparr>gets = [Answer \<lparr>status = 200, body = Some (JObj [(''Attributes'', JObj [(''SysProfile'', JStr ''PerfOptimized'')])])\<rparr>],
      posts = [], sent = []\<rparr>
   = (Inr (JStr ''Bios''),
      \<lparr>gets = [], posts = [], sent = [Get ''https://h/redfish/v1/Systems/1/Bios'']\<rparr>)
   \<and> fst (get_boot_seq \<lparr>host = ''h'', host_uri = ''https://h'', system_resource = ''/redfish/v1/Systems/1'',
       manager_resource = ''/redfish/v1/Managers/1'', retries = 3\<rparr>
     \<lparr>gets = [Answer \<lparr>status = 200, body = Some (JObj [(''Attributes'', JObj [(''SysProfile'', JStr ''PerfOptimized'')])])\<rparr>],
      posts = [], sent = []\<rparr>) = Inr ''BootSeq''"
  using C10_missing_key_gives_Bios [where
      w = "\<lparr>gets = [Answer \<lparr>status = 200, body = Some (JObj [(''Attributes'', JObj [(''SysProfile'', JStr ''PerfOptimized'')])])\<rparr>],
        posts = [], sent = []\<rparr>"
      and resp = "\<lparr>status = 200, body = Some (JObj [(''Attributes'', JObj [(''SysProfile'', JStr ''PerfOptimized'')])])\<rparr>"
      and rest = "[]" and kvs = "[(''Attributes'', JObj [(''SysProfile'', JStr ''PerfOptimized'')])]"
      and s = "\<lparr>host = ''h'', host_uri = ''https://h'', system_resource = ''/redfish/v1/Systems/1'',
       manager_resource = ''/redfish/v1/Managers/1'', retries = 3\<rparr>"]
  by simp

text \<open>
  The claim as stated fails: the 200 body \<open>{"Attributes": null}\<close> parses as JSON and
  lacks \<open>Attributes.BootMode\<close>, but subscripting \<open>None\<close> raises \<open>TypeError\<close>, which the
  \<open>except KeyError\<close> does not catch; \<open>get_boot_seq\<close> fails with it.
\<close>

theorem C10_null_attributes_counterexample:
  "get_bios_boot_mode \<lparr>host = ''h'', host_uri = ''https://h'', system_resource = ''/redfish/v1/Systems/1'',
       manager_resource = ''/redfish/v1/Managers/1'', retries = 3\<rparr>
     \<lparr>gets = [Answer \<lparr>status = 200, body = Some (JObj [(''Attributes'', JNull)])\<rparr>],
      posts = [], sent = []\<rparr>
   = (Inl TypeError, \<lparr>gets = [], posts = [], sent = [Get ''https://h/redfish/v1/Systems/1/Bios'']\<rparr>)
   \<and> fst (get_boot_seq \<lparr>host = ''h'', host_uri = ''https://h'', system_resource = ''/redfish/v1/Systems/1'',
       manager_resource = ''/redfish/v1/Managers/1'', retries = 3\<rparr>
     \<lparr>gets = [Answer \<lparr>status = 200, body = Some (JObj [(''Attributes'', JNull)])\<rparr>],
      posts = [], sent = []\<rparr>) = Inl TypeError"
  by (simp add: get_boot_seq_def get_bios_boot_mode_def bind_def get_request_def raise_def)

section \<open>Properties: setting the power state\<close>

text \<open>
  Claim C9. For every \<open>set_power_state\<close> call with target "on" or "off" (in any case) in
  which the system-resource fetch returns status 200 with a \<open>PowerState\<close> member \<open>p\<close>:
  the call either raises or returns \<open>p\<close>, the state read before the reset command. When
  \<open>p\<close> is truthy and the reset is accepted (200, 204 or 409), it returns \<open>p\<close> after
  exactly one call of \<open>get_request\<close> followed by the reset POST, so no state is read
  after the transition.
\<close>

theorem C9_returns_prior_state:
  assumes st: "lower state = ''on'' \<or> lower state = ''off''"
    and g: "gets w = Answer resp # rest"
    and ok: "status resp = 200"
    and b: "body resp = Some (JObj kvs)"
    and p: "map_of kvs ''PowerState'' = Some p"
  shows "(fst (set_power_state s state w) = Inr (Some p) \<or> (\<exists>e. fst (set_power_state s state w) = Inl e))
    \<and> (truthy p \<and> posts w = Answer presp # prest \<and> status presp \<in> {200, 204, 409} \<longrightarrow>
        set_power_state s state w =
          (Inr (Some p),
           w\<lparr>gets := rest, posts := prest,
             sent := sent w @
               [Get (host_uri s @ system_resource s),
                Post (host_uri s @ system_resource s @ ''/Actions/ComputerSystem.Reset'')
                     (JObj [(''ResetType'', JStr (if lower state = ''off'' then ''ForceOff'' else ''On''))])]\<rparr>))"
proof -
  let ?w1 = "w\<lparr>gets := rest, sent := sent w @ [Get (host_uri s @ system_resource s)]\<rparr>"
  let ?t = "if lower state = ''off'' then ''ForceOff'' else ''On''"
  have e: "set_power_state s state w =
      (if \<not> truthy p then (Inl BadfishException, ?w1)
       else bind (send_reset s ?t) (\<lambda>_. return (Some p)) ?w1)"
    using st ok b p
    by (auto simp: set_power_state_def bind_def get_request_answer [OF g] lift_def return_def raise_def)
  have a: "fst (set_power_state s state w) = Inr (Some p) \<or> (\<exists>e. fst (set_power_state s state w) = Inl e)"
    unfolding e by (cases "send_reset s ?t ?w1"; cases "fst (send_reset s ?t ?w1)") (auto simp: bind_def return_def)
  have c: "set_power_state s state w =
          (Inr (Some p),
           w\<lparr>gets := rest, posts := prest,
             sent := sent w @
               [Get (host_uri s @ system_resource s),
                Post (host_uri s @ system_resource s @ ''/Actions/ComputerSystem.Reset'')
                     (JObj [(''ResetType'', JStr ?t)])]\<rparr>)"
    if "truthy p" "posts w = Answer presp # prest" "status presp \<in> {200, 204, 409}"
  proof -
    have "posts ?w1 = Answer presp # prest" using that by simp
    from send_reset_accepted [OF this that(3), of s ?t] that(1) show ?thesis
      unfolding e by (simp add: bind_def return_def)
  qed
  from a c show ?thesis by blast
qed

theorem C9_returns_prior_state_witness:
  "set_power_state \<lparr>host = ''h'', host_uri = ''https://h'', system_resource = ''/redfish/v1/Systems/1'',
       manager_resource = ''/redfish/v1/Managers/1'', retries = 3\<rparr> ''Off''
     \<lparr>gets = [Answer \<lparr>status = 200, body = Some (JObj [(''PowerState'', JStr ''On'')])\<rparr>],
      posts = [Answer \<lparr>status = 204, body = None\<rparr>], sent = []\<rparr>
   = (Inr (Some (JStr ''On'')),
      \<lparr>gets = [], posts = [],
       sent = [Get ''https://h/redfish/v1/Systems/1'',
               Post ''https://h/redfish/v1/Systems/1/Actions/ComputerSystem.Reset''
                    (JObj [(''ResetType'', JStr ''ForceOff'')])]\<rparr>)"
proof -
  have st: "lower ''Off'' = ''on'' \<or> lower ''Off'' = ''off''" by (simp add: lower_def)
  show ?thesis
    using C9_returns_prior_state [OF st, where
      w = "\<lparr>gets = [Answer \<lparr>status = 200, body = Some (JObj [(''PowerState'', JStr ''On'')])\<rparr>],
        posts = [Answer \<lparr>status = 204, body = None\<rparr>], sent = []\<rparr>"
      and resp = "\<lparr>status = 200, body = Some (JObj [(''PowerState'', JStr ''On'')])\<rparr>" and rest = "[]"
      and kvs = "[(''PowerState'', JStr ''On'')]" and p = "JStr ''On''"
      and presp = "\<lparr>status = 204, body = None\<rparr>" and prest = "[]" and s = "\<lparr>host = ''h'', host_uri = ''https://h'', system_resource = ''/redfish/v1/Systems/1'',
       manager_resource = ''/redfish/v1/Managers/1'', retries = 3\<rparr>"]
    by (simp add: lower_def)
qed

section \<open>Properties: polling a job\<close>

lemma job_status_step_pending:
  assumes "gets w = r # tail" "job_pending r"
  shows "job_status_loop s job_id (Suc n) w =
         job_status_loop s job_id n (w\<lparr>gets := tail, sent := sent w @ [Get (job_uri s job_id)]\<rparr>)"
proof (cases r)
  case NoAnswer
  with assms show ?thesis
    by (simp add: bind_def get_request_def job_uri_def)
next
  case (Answer resp)
  with assms show ?thesis
    by (auto simp: bind_def get_request_def job_uri_def job_pending_def lift_def return_def
             split: option.splits sum.splits)
qed

lemma job_status_step_silent:
  assumes "gets w = []"
  shows "job_status_loop s job_id (Suc n) w =
         job_status_loop s job_id n (w\<lparr>gets := [], sent := sent w @ [Get (job_uri s job_id)]\<rparr>)"
  using assms by (simp add: bind_def get_request_def job_uri_def)

lemma job_status_skip_pending:
  "gets w = pre @ tail \<Longrightarrow> \<forall>x\<in>set pre. job_pending x \<Longrightarrow>
   job_status_loop s job_id (length pre + n) w =
   job_status_loop s job_id n
     (w\<lparr>gets := tail, sent := sent w @ replicate (length pre) (Get (job_uri s job_id))\<rparr>)"
proof (induction pre arbitrary: w)
  case Nil
  then have "w\<lparr>gets := tail, sent := sent w\<rparr> = w" by simp
  then show ?case by simp
next
  case (Cons r pre)
  let ?w1 = "w\<lparr>gets := pre @ tail, sent := sent w @ [Get (job_uri s job_id)]\<rparr>"
  from Cons.prems have g: "gets w = r # (pre @ tail)" and pr: "job_pending r"
    and rest: "\<forall>x\<in>set pre. job_pending x" by simp_all
  have "job_status_loop s job_id (length (r # pre) + n) w
          = job_status_loop s job_id (length pre + n) ?w1"
    using job_status_step_pending [OF g pr, of s job_id "length pre + n"] by simp
  also have "\<dots> = job_status_loop s job_id n
     (?w1\<lparr>gets := tail, sent := sent ?w1 @ replicate (length pre) (Get (job_uri s job_id))\<rparr>)"
    by (rule Cons.IH) (use rest in simp_all)
  finally show ?case by (simp add: replicate_append_same)
qed

lemma job_status_all_pending:
  "\<forall>x\<in>set (take n (gets w)). job_pending x \<Longrightarrow>
   job_status_loop s job_id n w =
     (Inl BadfishException,
      w\<lparr>gets := drop n (gets w), sent := sent w @ replicate n (Get (job_uri s job_id))\<rparr>)"
proof (induction n arbitrary: w)
  case 0
  then show ?case by (simp add: raise_def)
next
  case (Suc n)
  show ?case
  proof (cases "gets w")
    case Nil
    let ?w1 = "w\<lparr>gets := [], sent := sent w @ [Get (job_uri s job_id)]\<rparr>"
    have "job_status_loop s job_id n ?w1 = (Inl BadfishException,
      ?w1\<lparr>gets := drop n (gets ?w1), sent := sent ?w1 @ replicate n (Get (job_uri s job_id))\<rparr>)"
      by (rule Suc.IH) simp
    then show ?thesis
      using job_status_step_silent [OF Nil, of s job_id n] Nil
      by (simp add: replicate_append_same)
  next
    case (Cons r tail)
    let ?w1 = "w\<lparr>gets := tail, sent := sent w @ [Get (job_uri s job_id)]\<rparr>"
    from Suc.prems Cons have pr: "job_pending r" and rest: "\<forall>x\<in>set (take n tail). job_pending x"
      by simp_all
    have "job_status_loop s job_id n ?w1 = (Inl BadfishException,
      ?w1\<lparr>gets := drop n (gets ?w1), sent := sent ?w1 @ replicate n (Get (job_uri s job_id))\<rparr>)"
      by (rule Suc.IH) (use rest in simp)
    then show ?thesis
      using job_status_step_pending [OF Cons pr, of s job_id n] Cons
      by (simp add: replicate_append_same)
  qed
qed

lemma job_status_step_scheduled:
  assumes "gets w = r # tail" "job_scheduled r"
  shows "job_status_loop s job_id (Suc n) w =
         (Inr (), w\<lparr>gets := tail, sent := sent w @ [Get (job_uri s job_id)]\<rparr>)"
  using assms
  by (cases r)
     (auto simp: bind_def get_request_def job_uri_def job_scheduled_def lift_def return_def
           split: option.splits sum.splits)

lemma job_status_step_rejected:
  assumes "gets w = Answer resp # tail" "status resp \<noteq> 200"
  shows "job_status_loop s job_id (Suc n) w =
         (Inl (error_handler resp), w\<lparr>gets := tail, sent := sent w @ [Get (job_uri s job_id)]\<rparr>)"
  using assms
  by (auto simp: bind_def get_request_def job_uri_def raise_def)



text \<open>
  Claim C5. For every sequence of responses observed by \<open>get_job_status\<close>:
  the first 200 response whose \<open>Message\<close> is exactly "Task successfully scheduled."
  ends the poll with success, provided every earlier observation was pending (absent, or
  200 with another message) and the budget was not used up; each pending observation
  costs one iteration, that is one call of \<open>get_request\<close>; a response with a status other than 200 ends the
  poll at once with the exception of \<open>error_handler\<close>; and when the whole budget is
  spent on pending observations the call raises \<open>BadfishException\<close> (the retry budget
  is exhausted).
\<close>

theorem C5_job_polling:
  "(gets w = pre @ r # rest \<and> length pre < nat (retries s) \<and> (\<forall>x\<in>set pre. job_pending x)
      \<and> job_scheduled r \<longrightarrow>
    get_job_status s job_id w =
      (Inr (), w\<lparr>gets := rest,
                 sent := sent w @ replicate (Suc (length pre)) (Get (job_uri s job_id))\<rparr>))
   \<and> (gets w = pre' @ Answer resp # rest' \<and> length pre' < nat (retries s)
      \<and> (\<forall>x\<in>set pre'. job_pending x) \<and> status resp \<noteq> 200 \<longrightarrow>
    get_job_status s job_id w =
      (Inl (error_handler resp),
       w\<lparr>gets := rest',
         sent := sent w @ replicate (Suc (length pre')) (Get (job_uri s job_id))\<rparr>))
   \<and> ((\<forall>x\<in>set (take (nat (retries s)) (gets w)). job_pending x) \<longrightarrow>
    get_job_status s job_id w =
      (Inl BadfishException,
       w\<lparr>gets := drop (nat (retries s)) (gets w),
         sent := sent w @ replicate (nat (retries s)) (Get (job_uri s job_id))\<rparr>))"
proof (intro conjI impI)
  assume a: "gets w = pre @ r # rest \<and> length pre < nat (retries s) \<and> (\<forall>x\<in>set pre. job_pending x)
      \<and> job_scheduled r"
  define m where "m = nat (retries s) - Suc (length pre)"
  from a have "length pre < nat (retries s)" by simp
  then have m: "nat (retries s) = length pre + Suc m" unfolding m_def by arith
  let ?w1 = "w\<lparr>gets := r # rest, sent := sent w @ replicate (length pre) (Get (job_uri s job_id))\<rparr>"
  from a have g: "gets w = pre @ (r # rest)" and p: "\<forall>x\<in>set pre. job_pending x" by simp_all
  have "get_job_status s job_id w = job_status_loop s job_id (Suc m) ?w1"
    unfolding get_job_status_def m by (rule job_status_skip_pending [OF g p])
  also have "\<dots> = (Inr (), ?w1\<lparr>gets := rest, sent := sent ?w1 @ [Get (job_uri s job_id)]\<rparr>)"
    by (rule job_status_step_scheduled [of ?w1 r rest]) (use a in simp_all)
  finally show "get_job_status s job_id w =
      (Inr (), w\<lparr>gets := rest,
                 sent := sent w @ replicate (Suc (length pre)) (Get (job_uri s job_id))\<rparr>)"
    by (simp add: replicate_append_same)
next
  assume a: "gets w = pre' @ Answer resp # rest' \<and> length pre' < nat (retries s)
      \<and> (\<forall>x\<in>set pre'. job_pending x) \<and> status resp \<noteq> 200"
  define m where "m = nat (retries s) - Suc (length pre')"
  from a have "length pre' < nat (retries s)" by simp
  then have m: "nat (retries s) = length pre' + Suc m" unfolding m_def by arith
  let ?w1 = "w\<lparr>gets := Answer resp # rest', sent := sent w @ replicate (length pre') (Get (job_uri s job_id))\<rparr>"
  from a have g: "gets w = pre' @ (Answer resp # rest')" and p: "\<forall>x\<in>set pre'. job_pending x" by simp_all
  have "get_job_status s job_id w = job_status_loop s job_id (Suc m) ?w1"
    unfolding get_job_status_def m by (rule job_status_skip_pending [OF g p])
  also have "\<dots> = (Inl (error_handler resp), ?w1\<lparr>gets := rest', sent := sent ?w1 @ [Get (job_uri s job_id)]\<rparr>)"
    by (rule job_status_step_rejected [of ?w1 resp rest']) (use a in simp_all)
  finally show "get_job_status s job_id w =
      (Inl (error_handler resp),
       w\<lparr>gets := rest',
         sent := sent w @ replicate (Suc (length pre')) (Get (job_uri s job_id))\<rparr>)"
    by (simp add: replicate_append_same)
next
  assume "\<forall>x\<in>set (take (nat (retries s)) (gets w)). job_pending x"
  then show "get_job_status s job_id w =
      (Inl BadfishException,
       w\<lparr>gets := drop (nat (retries s)) (gets w),
         sent := sent w @ replicate (nat (retries s)) (Get (job_uri s job_id))\<rparr>)"
    unfolding get_job_status_def by (rule job_status_all_pending)
qed

theorem C5_job_polling_witness:
  "get_job_status \<lparr>host = ''h'', host_uri = ''https://h'', system_resource = ''/redfish/v1/Systems/1'',
       manager_resource = ''/redfish/v1/Managers/1'', retries = 3\<rparr> ''JID_1''
     \<lparr>gets = [(Answer \<lparr>status = 200, body = Some (JObj [(''Message'', JStr ''Task running'')])\<rparr>), NoAnswer, (Answer \<lparr>status = 200, body = Some (JObj [(''Message'', JStr ''Task successfully scheduled.'')])\<rparr>), NoAnswer], posts = [], sent = []\<rparr>
   = (Inr (), \<lparr>gets = [NoAnswer], posts = [],
               sent = replicate 3 (Get ''https://h/redfish/v1/Managers/1/Jobs/JID_1'')\<rparr>)
   \<and> get_job_status \<lparr>host = ''h'', host_uri = ''https://h'', system_resource = ''/redfish/v1/Systems/1'',
       manager_resource = ''/redfish/v1/Managers/1'', retries = 3\<rparr> ''JID_1''
     \<lparr>gets = [NoAnswer, Answer \<lparr>status = 404, body = None\<rparr>, (Answer \<lparr>status = 200, body = Some (JObj [(''Message'', JStr ''Task successfully scheduled.'')])\<rparr>)], posts = [], sent = []\<rparr>
   = (Inl BadfishException, \<lparr>gets = [(Answer \<lparr>status = 200, body = Some (JObj [(''Message'', JStr ''Task successfully scheduled.'')])\<rparr>)], posts = [],
               sent = replicate 2 (Get ''https://h/redfish/v1/Managers/1/Jobs/JID_1'')\<rparr>)
   \<and> get_job_status \<lparr>host = ''h'', host_uri = ''https://h'', system_resource = ''/redfish/v1/Systems/1'',
       manager_resource = ''/redfish/v1/Managers/1'', retries = 3\<rparr> ''JID_1''
     \<lparr>gets = [(Answer \<lparr>status = 200, body = Some (JObj [(''Message'', JStr ''Task running'')])\<rparr>), NoAnswer, (Answer \<lparr>status = 200, body = Some (JObj [(''Message'', JStr ''Task running'')])\<rparr>), (Answer \<lparr>status = 200, body = Some (JObj [(''Message'', JStr ''Task successfully scheduled.'')])\<rparr>)], posts = [], sent = []\<rparr>
   = (Inl BadfishException, \<lparr>gets = [(Answer \<lparr>status = 200, body = Some (JObj [(''Message'', JStr ''Task successfully scheduled.'')])\<rparr>)], posts = [],
               sent = replicate 3 (Get ''https://h/redfish/v1/Managers/1/Jobs/JID_1'')\<rparr>)"
proof -
  let ?w1 = "\<lparr>gets = [(Answer \<lparr>status = 200, body = Some (JObj [(''Message'', JStr ''Task running'')])\<rparr>), NoAnswer, (Answer \<lparr>status = 200, body = Some (JObj [(''Message'', JStr ''Task successfully scheduled.'')])\<rparr>), NoAnswer], posts = [], sent = []\<rparr>"
  let ?w2 = "\<lparr>gets = [NoAnswer, Answer \<lparr>status = 404, body = None\<rparr>, (Answer \<lparr>status = 200, body = Some (JObj [(''Message'', JStr ''Task successfully scheduled.'')])\<rparr>)], posts = [], sent = []\<rparr>"
  let ?w3 = "\<lparr>gets = [(Answer \<lparr>status = 200, body = Some (JObj [(''Message'', JStr ''Task running'')])\<rparr>), NoAnswer, (Answer \<lparr>status = 200, body = Some (JObj [(''Message'', JStr ''Task running'')])\<rparr>), (Answer \<lparr>status = 200, body = Some (JObj [(''Message'', JStr ''Task successfully scheduled.'')])\<rparr>)], posts = [], sent = []\<rparr>"
  have p: "job_pending (Answer \<lparr>status = 200, body = Some (JObj [(''Message'', JStr ''Task running'')])\<rparr>)" "job_pending NoAnswer" "job_scheduled (Answer \<lparr>status = 200, body = Some (JObj [(''Message'', JStr ''Task successfully scheduled.'')])\<rparr>)"
    by (simp_all add: job_pending_def job_scheduled_def)
  have a: "get_job_status \<lparr>host = ''h'', host_uri = ''https://h'', system_resource = ''/redfish/v1/Systems/1'',
       manager_resource = ''/redfish/v1/Managers/1'', retries = 3\<rparr> ''JID_1'' ?w1 =
      (Inr (), ?w1\<lparr>gets := [NoAnswer],
                 sent := sent ?w1 @ replicate (Suc (length [(Answer \<lparr>status = 200, body = Some (JObj [(''Message'', JStr ''Task running'')])\<rparr>), NoAnswer]))
                                      (Get (job_uri \<lparr>host = ''h'', host_uri = ''https://h'', system_resource = ''/redfish/v1/Systems/1'',
       manager_resource = ''/redfish/v1/Managers/1'', retries = 3\<rparr> ''JID_1''))\<rparr>)"
    using C5_job_polling [where w = ?w1 and pre = "[(Answer \<lparr>status = 200, body = Some (JObj [(''Message'', JStr ''Task running'')])\<rparr>), NoAnswer]"
        and r = "(Answer \<lparr>status = 200, body = Some (JObj [(''Message'', JStr ''Task successfully scheduled.'')])\<rparr>)" and rest = "[NoAnswer]"
        and s = "\<lparr>host = ''h'', host_uri = ''https://h'', system_resource = ''/redfish/v1/Systems/1'',
       manager_resource = ''/redfish/v1/Managers/1'', retries = 3\<rparr>"] p
    by simp
  have b: "get_job_status \<lparr>host = ''h'', host_uri = ''https://h'', system_resource = ''/redfish/v1/Systems/1'',
       manager_resource = ''/redfish/v1/Managers/1'', retries = 3\<rparr> ''JID_1'' ?w2 =
      (Inl (error_handler \<lparr>status = 404, body = None\<rparr>),
       ?w2\<lparr>gets := [(Answer \<lparr>status = 200, body = Some (JObj [(''Message'', JStr ''Task successfully scheduled.'')])\<rparr>)],
           sent := sent ?w2 @ replicate (Suc (length [NoAnswer])) (Get (job_uri \<lparr>host = ''h'', host_uri = ''https://h'', system_resource = ''/redfish/v1/Systems/1'',
       manager_resource = ''/redfish/v1/Managers/1'', retries = 3\<rparr> ''JID_1''))\<rparr>)"
    using C5_job_polling [where w = ?w2 and pre' = "[NoAnswer]"
        and resp = "\<lparr>status = 404, body = None\<rparr>" and rest' = "[(Answer \<lparr>status = 200, body = Some (JObj [(''Message'', JStr ''Task successfully scheduled.'')])\<rparr>)]"
        and s = "\<lparr>host = ''h'', host_uri = ''https://h'', system_resource = ''/redfish/v1/Systems/1'',
       manager_resource = ''/redfish/v1/Managers/1'', retries = 3\<rparr>"] p
    by simp
  have c: "get_job_status \<lparr>host = ''h'', host_uri = ''https://h'', system_resource = ''/redfish/v1/Systems/1'',
       manager_resource = ''/redfish/v1/Managers/1'', retries = 3\<rparr> ''JID_1'' ?w3 =
      (Inl BadfishException,
       ?w3\<lparr>gets := drop (nat (retries \<lparr>host = ''h'', host_uri = ''https://h'', system_resource = ''/redfish/v1/Systems/1'',
       manager_resource = ''/redfish/v1/Managers/1'', retries = 3\<rparr>)) (gets ?w3),
           sent := sent ?w3 @ replicate (nat (retries \<lparr>host = ''h'', host_uri = ''https://h'', system_resource = ''/redfish/v1/Systems/1'',
       manager_resource = ''/redfish/v1/Managers/1'', retries = 3\<rparr>)) (Get (job_uri \<lparr>host = ''h'', host_uri = ''https://h'', system_resource = ''/redfish/v1/Systems/1'',
       manager_resource = ''/redfish/v1/Managers/1'', retries = 3\<rparr> ''JID_1''))\<rparr>)"
    using C5_job_polling [where w = ?w3
        and s = "\<lparr>host = ''h'', host_uri = ''https://h'', system_resource = ''/redfish/v1/Systems/1'',
       manager_resource = ''/redfish/v1/Managers/1'', retries = 3\<rparr>"] p
    by (simp add: numeral_3_eq_3)
  from a b c show ?thesis
    by (simp add: job_uri_def error_handler_def numeral_3_eq_3 numeral_2_eq_2)
qed

section \<open>Properties: rebooting\<close>

text \<open>
  Claim C6: a graceful reboot started in power state On sends no \<open>ForceOff\<close> and ends
  with \<open>On\<close> when the controller reports Off within the polling budget. The code does
  not do that in a session on its own. Every poll calls \<open>get_request\<close> with the key of
  the read of line 845, so the memo hands it the response read there; the controller
  below reports Off from its second state reply on, it is asked for the state once, the
  three polls for Off all see On, and the run sends \<open>GracefulRestart\<close>, \<open>ForceOff\<close>, \<open>On\<close>.
\<close>

theorem C6_stale_poll_forces_off:
  "alru_cache 64 []
     [(''https://h/redfish/v1/Systems/1'', False), (''https://h/redfish/v1/Systems/1'', True),
      (''https://h/redfish/v1/Systems/1'', True), (''https://h/redfish/v1/Systems/1'', True),
      (''https://h/redfish/v1/Systems/1'', True), (''https://h/redfish/v1/Systems/1'', True)]
     [reset_types_reply [''On'', ''ForceOff'', ''GracefulRestart''],
      power_reply ''On'', power_reply ''Off'', power_reply ''Off'', power_reply ''Off'',
      power_reply ''Off'']
   = [reset_types_reply [''On'', ''ForceOff'', ''GracefulRestart''],
      power_reply ''On'', power_reply ''On'', power_reply ''On'', power_reply ''On'',
      power_reply ''On'']
   \<and> reboot_server example_session True
     \<lparr>gets = alru_cache 64 []
        [(''https://h/redfish/v1/Systems/1'', False), (''https://h/redfish/v1/Systems/1'', True),
      (''https://h/redfish/v1/Systems/1'', True), (''https://h/redfish/v1/Systems/1'', True),
      (''https://h/redfish/v1/Systems/1'', True), (''https://h/redfish/v1/Systems/1'', True)]
        [reset_types_reply [''On'', ''ForceOff'', ''GracefulRestart''],
      power_reply ''On'', power_reply ''Off'', power_reply ''Off'', power_reply ''Off'',
      power_reply ''Off''],
      posts = [no_content, no_content, no_content], sent = []\<rparr>
   = (Inr True,
      \<lparr>gets = [], posts = [],
       sent = [Get ''https://h/redfish/v1/Systems/1'', Get ''https://h/redfish/v1/Systems/1'',
               Post ''https://h/redfish/v1/Systems/1/Actions/ComputerSystem.Reset''
                    (JObj [(''ResetType'', JStr ''GracefulRestart'')]),
               Get ''https://h/redfish/v1/Systems/1'', Get ''https://h/redfish/v1/Systems/1'',
               Get ''https://h/redfish/v1/Systems/1'',
               Post ''https://h/redfish/v1/Systems/1/Actions/ComputerSystem.Reset''
                    (JObj [(''ResetType'', JStr ''ForceOff'')]),
               Get ''https://h/redfish/v1/Systems/1'',
               Post ''https://h/redfish/v1/Systems/1/Actions/ComputerSystem.Reset''
                    (JObj [(''ResetType'', JStr ''On'')])]\<rparr>)"
proof -
  have memo: "alru_cache 64 []
     [(''https://h/redfish/v1/Systems/1'', False), (''https://h/redfish/v1/Systems/1'', True),
      (''https://h/redfish/v1/Systems/1'', True), (''https://h/redfish/v1/Systems/1'', True),
      (''https://h/redfish/v1/Systems/1'', True), (''https://h/redfish/v1/Systems/1'', True)]
     [reset_types_reply [''On'', ''ForceOff'', ''GracefulRestart''],
      power_reply ''On'', power_reply ''Off'', power_reply ''Off'', power_reply ''Off'',
      power_reply ''Off'']
   = [reset_types_reply [''On'', ''ForceOff'', ''GracefulRestart''],
      power_reply ''On'', power_reply ''On'', power_reply ''On'', power_reply ''On'',
      power_reply ''On'']"
    by (simp add: example_defs Let_def)
  have run: "reboot_server example_session True
     \<lparr>gets = [reset_types_reply [''On'', ''ForceOff'', ''GracefulRestart''],
      power_reply ''On'', power_reply ''On'', power_reply ''On'', power_reply ''On'',
      power_reply ''On''],
      posts = [no_content, no_content, no_content], sent = []\<rparr>
   = (Inr True,
      \<lparr>gets = [], posts = [],
       sent = [Get ''https://h/redfish/v1/Systems/1'', Get ''https://h/redfish/v1/Systems/1'',
               Post ''https://h/redfish/v1/Systems/1/Actions/ComputerSystem.Reset''
                    (JObj [(''ResetType'', JStr ''GracefulRestart'')]),
               Get ''https://h/redfish/v1/Systems/1'', Get ''https://h/redfish/v1/Systems/1'',
               Get ''https://h/redfish/v1/Systems/1'',
               Post ''https://h/redfish/v1/Systems/1/Actions/ComputerSystem.Reset''
                    (JObj [(''ResetType'', JStr ''ForceOff'')]),
               Get ''https://h/redfish/v1/Systems/1'',
               Post ''https://h/redfish/v1/Systems/1/Actions/ComputerSystem.Reset''
                    (JObj [(''ResetType'', JStr ''On'')])]\<rparr>)"
    by (simp add: example_defs reboot_server_def get_reset_types_def select_reset_type_def
          get_power_state_def send_reset_def polling_host_state_def numeral_3_eq_3
          bind_def lift_def return_def raise_def get_request_def post_request_def lower_def)
  show ?thesis
    unfolding memo using run by simp
qed

section \<open>Properties: host orchestrator\<close>

text \<open>
  Claim C8: one (host, success) result per host, in input order, and the failure of one
  host leaves the results of the others as they are. The code breaks it on the hosts
  \<open>A\<close>, \<open>B\<close>, \<open>C\<close> with the action power-on when the tolerant GET of \<open>B\<close> gets no answer:
  \<open>set_power_state\<close> reads \<open>_response.status\<close> of \<open>None\<close> (line 547), the
  \<open>AttributeError\<close> is not caught by \<open>execute_badfish\<close> and is itself the entry of \<open>B\<close>,
  and the summary loop of \<open>main\<close> raises \<open>TypeError\<close> on \<open>len(res)\<close> (line 1876), so no
  exit code is returned although \<open>A\<close> and \<open>C\<close> succeeded.
\<close>

theorem C8_exception_entry_ends_main:
  "gather
     [(''A'', bind (set_power_state example_session ''on'') (\<lambda>_. return ()),
         \<lparr>gets = [power_reply ''Off''], posts = [no_content], sent = []\<rparr>),
      (''B'', bind (set_power_state example_session ''on'') (\<lambda>_. return ()),
         \<lparr>gets = [NoAnswer], posts = [], sent = []\<rparr>),
      (''C'', bind (set_power_state example_session ''on'') (\<lambda>_. return ()),
         \<lparr>gets = [power_reply ''Off''], posts = [no_content], sent = []\<rparr>)]
   = [Inr (''A'', True), Inl AttributeError, Inr (''C'', True)]
   \<and> main_host_list
     [(''A'', bind (set_power_state example_session ''on'') (\<lambda>_. return ()),
         \<lparr>gets = [power_reply ''Off''], posts = [no_content], sent = []\<rparr>),
      (''B'', bind (set_power_state example_session ''on'') (\<lambda>_. return ()),
         \<lparr>gets = [NoAnswer], posts = [], sent = []\<rparr>),
      (''C'', bind (set_power_state example_session ''on'') (\<lambda>_. return ()),
         \<lparr>gets = [power_reply ''Off''], posts = [no_content], sent = []\<rparr>)]
   = Inl TypeError"
proof -
  have g: "gather
     [(''A'', bind (set_power_state example_session ''on'') (\<lambda>_. return ()),
         \<lparr>gets = [power_reply ''Off''], posts = [no_content], sent = []\<rparr>),
      (''B'', bind (set_power_state example_session ''on'') (\<lambda>_. return ()),
         \<lparr>gets = [NoAnswer], posts = [], sent = []\<rparr>),
      (''C'', bind (set_power_state example_session ''on'') (\<lambda>_. return ()),
         \<lparr>gets = [power_reply ''Off''], posts = [no_content], sent = []\<rparr>)]
   = [Inr (''A'', True), Inl AttributeError, Inr (''C'', True)]"
    by (simp add: gather_def execute_badfish_def set_power_state_def send_reset_def example_defs
          bind_def lift_def return_def raise_def get_request_def post_request_def lower_def)
  then show ?thesis
    by (simp add: main_host_list_def)
qed

text \<open>
  With a \<open>BadfishException\<close> in \<open>B\<close> instead (no answer to its reset), the same run does
  what the claim says.
\<close>

lemma gather_isolates_BadfishException:
  "gather
     [(''A'', bind (set_power_state example_session ''on'') (\<lambda>_. return ()),
         \<lparr>gets = [power_reply ''Off''], posts = [no_content], sent = []\<rparr>),
      (''B'', bind (set_power_state example_session ''on'') (\<lambda>_. return ()),
         \<lparr>gets = [power_reply ''Off''], posts = [NoAnswer], sent = []\<rparr>),
      (''C'', bind (set_power_state example_session ''on'') (\<lambda>_. return ()),
         \<lparr>gets = [power_reply ''Off''], posts = [no_content], sent = []\<rparr>)]
   = [Inr (''A'', True), Inr (''B'', False), Inr (''C'', True)]"
  by (simp add: gather_def execute_badfish_def set_power_state_def send_reset_def example_defs
        bind_def lift_def return_def raise_def get_request_def post_request_def lower_def)

section \<open>Properties: concurrency permits\<close>

lemma run_ok_init: "run_ok n \<lparr>pools = [], holders = []\<rparr>"
  by (simp add: run_ok_def)

lemma run_ok_fire:
  assumes "run_ok n r" "fire n e r = Some r'"
  shows "run_ok n r'"
proof (cases e)
  case Construct
  with assms show ?thesis
    by (auto simp: run_ok_def Badfish_init_def nth_append split: if_splits)
next
  case (Acquire i)
  with assms(2) obtain h k where hk: "i < length (holders r)" "holders r ! i = (h, k)"
      "h < length (pools r)" "0 < pools r ! h"
      "r' = r\<lparr>pools := (pools r)[h := pools r ! h - 1], holders := (holders r)[i := (h, Suc k)]\<rparr>"
    by (auto split: if_splits prod.splits)
  from assms(1) hk(1,2) have h: "h = i" and s: "pools r ! i + k = 50"
    by (auto simp: run_ok_def)
  show ?thesis
    unfolding run_ok_def hk(5) h
  proof (intro conjI allI impI)
    fix j assume "j < length (holders (r\<lparr>pools := (pools r)[i := pools r ! i - 1], holders := (holders r)[i := (i, Suc k)]\<rparr>))"
    then have j: "j < length (holders r)" by simp
    from assms(1) j have a: "fst (holders r ! j) = j" "pools r ! j + snd (holders r ! j) = 50"
      "length (pools r) = length (holders r)"
      by (auto simp: run_ok_def)
    show "fst (holders (r\<lparr>pools := (pools r)[i := pools r ! i - 1], holders := (holders r)[i := (i, Suc k)]\<rparr>) ! j) = j"
      using a j hk(1) by (cases "j = i") simp_all
    show "pools (r\<lparr>pools := (pools r)[i := pools r ! i - 1], holders := (holders r)[i := (i, Suc k)]\<rparr>) ! j
          + snd (holders (r\<lparr>pools := (pools r)[i := pools r ! i - 1], holders := (holders r)[i := (i, Suc k)]\<rparr>) ! j) = 50"
      using a j hk(1,4) s h by (cases "j = i") simp_all
  qed (use assms(1) in \<open>simp_all add: run_ok_def\<close>)
next
  case (Release i)
  with assms(2) obtain h k where hk: "i < length (holders r)" "holders r ! i = (h, k)"
      "h < length (pools r)" "0 < k"
      "r' = r\<lparr>pools := (pools r)[h := pools r ! h + 1], holders := (holders r)[i := (h, k - 1)]\<rparr>"
    by (auto split: if_splits prod.splits)
  from assms(1) hk(1,2) have h: "h = i" and s: "pools r ! i + k = 50"
    by (auto simp: run_ok_def)
  show ?thesis
    unfolding run_ok_def hk(5) h
  proof (intro conjI allI impI)
    fix j assume "j < length (holders (r\<lparr>pools := (pools r)[i := pools r ! i + 1], holders := (holders r)[i := (i, k - 1)]\<rparr>))"
    then have j: "j < length (holders r)" by simp
    from assms(1) j have a: "fst (holders r ! j) = j" "pools r ! j + snd (holders r ! j) = 50"
      "length (pools r) = length (holders r)"
      by (auto simp: run_ok_def)
    show "fst (holders (r\<lparr>pools := (pools r)[i := pools r ! i + 1], holders := (holders r)[i := (i, k - 1)]\<rparr>) ! j) = j"
      using a j hk(1) by (cases "j = i") simp_all
    show "pools (r\<lparr>pools := (pools r)[i := pools r ! i + 1], holders := (holders r)[i := (i, k - 1)]\<rparr>) ! j
          + snd (holders (r\<lparr>pools := (pools r)[i := pools r ! i + 1], holders := (holders r)[i := (i, k - 1)]\<rparr>) ! j) = 50"
      using a j hk(1,4) s h by (cases "j = i") simp_all
  qed (use assms(1) in \<open>simp_all add: run_ok_def\<close>)
qed

lemma run_ok_schedule:
  "run_ok n r \<Longrightarrow> schedule n es r = Some r' \<Longrightarrow> run_ok n r'"
proof (induction es arbitrary: r)
  case Nil
  then show ?case by simp
next
  case (Cons e es)
  from Cons.prems(2) obtain r1 where "fire n e r = Some r1" "schedule n es r1 = Some r'"
    by (auto split: option.splits)
  with Cons.IH run_ok_fire [OF Cons.prems(1)] show ?case by blast
qed

lemma sum_list_bounded:
  "(\<forall>x\<in>set xs. f x \<le> (c::nat)) \<Longrightarrow> sum_list (map f xs) \<le> c * length xs"
  by (induction xs) auto

lemma schedule_append:
  "schedule n (xs @ ys) r = (case schedule n xs r of None \<Rightarrow> None | Some r' \<Rightarrow> schedule n ys r')"
  by (induction xs arbitrary: r) (auto split: option.splits)

lemma construct_all:
  "m \<le> n \<Longrightarrow> schedule n (replicate m Construct) \<lparr>pools = [], holders = []\<rparr> = Some (busy m 0)"
proof (induction m)
  case 0
  then show ?case by (simp add: busy_def)
next
  case (Suc m)
  have "replicate (Suc m) Construct = replicate m Construct @ [Construct]"
    by (simp add: replicate_append_same)
  then have "schedule n (replicate (Suc m) Construct) \<lparr>pools = [], holders = []\<rparr>
             = schedule n [Construct] (busy m 0)"
    using Suc by (simp add: schedule_append)
  also have "\<dots> = Some (busy (Suc m) 0)"
    using Suc.prems by (simp add: busy_def Badfish_init_def)
  finally show ?case .
qed

lemma acquire_next:
  "j < m \<Longrightarrow> fire n (Acquire j) (busy m j) = Some (busy m (Suc j))"
  by (auto simp: busy_def intro!: nth_equalityI simp: nth_list_update less_Suc_eq)

lemma acquire_upto:
  "j \<le> m \<Longrightarrow> schedule n (map Acquire [0..<j]) (busy m 0) = Some (busy m j)"
proof (induction j)
  case 0
  then show ?case by simp
next
  case (Suc j)
  then have "schedule n (map Acquire [0..<Suc j]) (busy m 0) = schedule n [Acquire j] (busy m j)"
    by (simp add: schedule_append)
  also have "\<dots> = Some (busy m (Suc j))"
    using Suc.prems acquire_next [of j m n] by simp
  finally show ?case .
qed

lemma in_flight_busy: "in_flight (busy m m) = m"
proof -
  have "map snd (holders (busy m m)) = replicate m 1"
    by (auto simp: busy_def intro!: nth_equalityI)
  then show ?thesis by (simp add: in_flight_def sum_list_replicate)
qed

lemma all_in_flight:
  "schedule m (replicate m Construct @ map Acquire [0..<m]) \<lparr>pools = [], holders = []\<rparr>
     = Some (busy m m)"
  by (simp add: schedule_append construct_all acquire_upto)

text \<open>
  Claim C3, as amended. In one orchestrator run over any number \<open>n\<close> of host sessions,
  every session has a semaphore of its own with 50 permits, so after every schedule
  that can happen the requests in flight of any one session are at most 50, and those
  of the whole run at most 50 times \<open>n\<close>.
\<close>

theorem C3_permits_per_session:
  assumes "schedule n es \<lparr>pools = [], holders = []\<rparr> = Some r"
  shows "distinct (map fst (holders r))
       \<and> (\<forall>i<length (holders r). snd (holders r ! i) \<le> 50)
       \<and> in_flight r \<le> 50 * n"
proof -
  from run_ok_schedule [OF run_ok_init assms] have ok: "run_ok n r" .
  then have f: "\<forall>i<length (holders r). fst (holders r ! i) = i"
    and b: "\<forall>i<length (holders r). snd (holders r ! i) \<le> 50"
    and l: "length (holders r) \<le> n"
    by (auto simp: run_ok_def)
  from f have "map fst (holders r) = [0..<length (holders r)]"
    by (intro nth_equalityI) simp_all
  then have d: "distinct (map fst (holders r))" by simp
  from b have "\<forall>x\<in>set (holders r). snd x \<le> 50"
    by (metis in_set_conv_nth)
  then have "in_flight r \<le> 50 * length (holders r)"
    unfolding in_flight_def by (rule sum_list_bounded)
  also have "\<dots> \<le> 50 * n" using l by simp
  finally show ?thesis using d b by blast
qed


theorem C3_permits_per_session_witness:
  "schedule 2 [Construct, Acquire 0, Construct, Acquire 1, Release 0, Acquire 0] \<lparr>pools = [], holders = []\<rparr>
     = Some \<lparr>pools = [49, 49], holders = [(0, 1), (1, 1)]\<rparr>
   \<and> distinct (map fst [(0::nat, 1::nat), (1, 1)])
   \<and> in_flight \<lparr>pools = [49, 49], holders = [(0, 1), (1, 1)]\<rparr> \<le> 50 * 2"
proof -
  have s: "schedule 2 [Construct, Acquire 0, Construct, Acquire 1, Release 0, Acquire 0] \<lparr>pools = [], holders = []\<rparr>
     = Some \<lparr>pools = [49, 49], holders = [(0, 1), (1, 1)]\<rparr>"
    by (simp add: Badfish_init_def)
  from C3_permits_per_session [OF s] s show ?thesis by simp
qed


text \<open>
  The claim as stated fails: the semaphores are not shared, so in a run over 200 hosts
  the schedule in which every session is constructed and then starts its first request
  can happen, and it has 200 requests in flight.
\<close>

theorem C3_200_in_flight_counterexample:
  "map_option in_flight
     (schedule 200 (replicate 200 Construct @ map Acquire [0..<200]) \<lparr>pools = [], holders = []\<rparr>)
   = Some 200"
  by (simp only: all_in_flight option.map in_flight_busy)


end
